theory Spec2Isabelle
  imports Main "HOL-Library.Word"
begin

section \<open>Go strings: the library functions the log service calls\<close>

text \<open>
  A Go string is a sequence of bytes; \<^typ>\<open>string\<close> (a list of 8-bit characters) is the
  same thing. The functions of package \<open>strings\<close> and \<open>bufio\<close> that \<open>sse.go\<close> calls are
  modelled on bytes, as the Go library runs them for the arguments the source passes.
\<close>

text \<open>\<open>strings.IndexByte\<close>: the index of the first \<open>c\<close> in \<open>s\<close>; Go's \<open>-1\<close> is \<open>None\<close>.\<close>

fun IndexByte :: "string \<Rightarrow> char \<Rightarrow> nat option" where
  "IndexByte [] c = None"
| "IndexByte (x # xs) c = (if x = c then Some 0 else map_option Suc (IndexByte xs c))"

text \<open>
  \<open>strings.Split(s, sep)\<close> for a separator of one byte, the only way the source calls it
  (\<open>"_"\<close>). It is the loop of \<open>genSplit\<close>: cut at the first separator and go on with
  what follows it; the last segment is what is left.
\<close>

function Split :: "string \<Rightarrow> char \<Rightarrow> string list" where
  "Split s sep =
     (case IndexByte s sep of
        None \<Rightarrow> [s]
      | Some m \<Rightarrow> take m s # Split (drop (Suc m) s) sep)"
  by pat_completeness auto

lemma IndexByte_less: "IndexByte s c = Some m \<Longrightarrow> m < length s"
  by (induction s arbitrary: m) (auto split: if_splits)

termination Split
  by (relation "measure (\<lambda>(s, sep). length s)") (auto dest: IndexByte_less)

declare Split.simps [simp del]

text \<open>\<open>strings.HasPrefix\<close> and \<open>strings.TrimPrefix\<close>.\<close>

definition HasPrefix :: "string \<Rightarrow> string \<Rightarrow> bool" where
  "HasPrefix s pre \<longleftrightarrow> length s \<ge> length pre \<and> take (length pre) s = pre"

definition TrimPrefix :: "string \<Rightarrow> string \<Rightarrow> string" where
  "TrimPrefix s pre = (if HasPrefix s pre then drop (length pre) s else s)"

text \<open>
  \<open>strings.TrimRight(s, cutset)\<close> for a cutset of ASCII bytes (the source passes
  \<open>"-job"\<close>): bytes are dropped from the end of \<open>s\<close> for as long as the last byte is one
  of the bytes of \<open>cutset\<close>. The cutset is a set of bytes, not a suffix.
\<close>

definition TrimRight :: "string \<Rightarrow> string \<Rightarrow> string" where
  "TrimRight s cutset = rev (dropWhile (\<lambda>c. c \<in> set cutset) (rev s))"

text \<open>\<open>strings.TrimSuffix\<close>, which the source does not call: what trimming a suffix is.\<close>

definition HasSuffix :: "string \<Rightarrow> string \<Rightarrow> bool" where
  "HasSuffix s suf \<longleftrightarrow> length s \<ge> length suf \<and> drop (length s - length suf) s = suf"

definition TrimSuffix :: "string \<Rightarrow> string \<Rightarrow> string" where
  "TrimSuffix s suf = (if HasSuffix s suf then take (length s - length suf) s else s)"

text \<open>
  \<open>strings.TrimSpace\<close> removes leading and trailing white space as \<open>unicode.IsSpace\<close>
  defines it, on the UTF-8 encoding of the string. The white space code points are
  U+0009 to U+000D, U+0020, U+0085, U+00A0, U+1680, U+2000 to U+200A, U+2028, U+2029,
  U+202F, U+205F and U+3000. \<open>spaceWidth s\<close> is the number of bytes of the white space
  code point that \<open>s\<close> starts with, \<open>0\<close> when it starts with none; an ill-formed byte
  decodes to U+FFFD, which is not white space.
\<close>

definition asciiSpace :: "char \<Rightarrow> bool" where
  "asciiSpace c \<longleftrightarrow>
     c = CHR 0x09 \<or> c = CHR 0x0A \<or> c = CHR 0x0B \<or> c = CHR 0x0C \<or> c = CHR 0x0D \<or> c = CHR 0x20"

text \<open>The second and third byte of a white space code point whose first byte is \<open>0xE2\<close>.\<close>

definition spaceE2 :: "char \<Rightarrow> char \<Rightarrow> bool" where
  "spaceE2 d e \<longleftrightarrow>
     d = CHR 0x80 \<and>
       (e = CHR 0x80 \<or> e = CHR 0x81 \<or> e = CHR 0x82 \<or> e = CHR 0x83 \<or> e = CHR 0x84 \<or>
        e = CHR 0x85 \<or> e = CHR 0x86 \<or> e = CHR 0x87 \<or> e = CHR 0x88 \<or> e = CHR 0x89 \<or>
        e = CHR 0x8A \<or> e = CHR 0xA8 \<or> e = CHR 0xA9 \<or> e = CHR 0xAF)
     \<or> d = CHR 0x81 \<and> e = CHR 0x9F"

text \<open>Whether the bytes \<open>c d e\<close> encode a white space code point of three bytes.\<close>

definition space3 :: "char \<Rightarrow> char \<Rightarrow> char \<Rightarrow> bool" where
  "space3 c d e \<longleftrightarrow>
     c = CHR 0xE1 \<and> d = CHR 0x9A \<and> e = CHR 0x80
     \<or> c = CHR 0xE2 \<and> spaceE2 d e
     \<or> c = CHR 0xE3 \<and> d = CHR 0x80 \<and> e = CHR 0x80"

text \<open>Whether the bytes \<open>c d\<close> encode a white space code point of two bytes.\<close>

definition space2 :: "char \<Rightarrow> char \<Rightarrow> bool" where
  "space2 c d \<longleftrightarrow> c = CHR 0xC2 \<and> (d = CHR 0x85 \<or> d = CHR 0xA0)"

fun spaceWidth :: "string \<Rightarrow> nat" where
  "spaceWidth [] = 0"
| "spaceWidth [c] = (if asciiSpace c then 1 else 0)"
| "spaceWidth [c, d] = (if asciiSpace c then 1 else if space2 c d then 2 else 0)"
| "spaceWidth (c # d # e # _) =
     (if asciiSpace c then 1 else if space2 c d then 2 else if space3 c d e then 3 else 0)"

text \<open>
  The same from the end of the string (\<open>utf8.DecodeLastRuneInString\<close>): the argument is
  the string reversed, so \<open>c\<close> is its last byte.
\<close>

fun lastSpaceWidth :: "string \<Rightarrow> nat" where
  "lastSpaceWidth [] = 0"
| "lastSpaceWidth [c] = (if asciiSpace c then 1 else 0)"
| "lastSpaceWidth [d, c] = (if asciiSpace d then 1 else if space2 c d then 2 else 0)"
| "lastSpaceWidth (e # d # c # _) =
     (if asciiSpace e then 1 else if space2 d e then 2 else if space3 c d e then 3 else 0)"

lemma spaceWidth_le: "spaceWidth s \<le> length s"
  by (induction s rule: spaceWidth.induct) auto

lemma lastSpaceWidth_le: "lastSpaceWidth s \<le> length s"
  by (induction s rule: lastSpaceWidth.induct) auto

function TrimLeftSpace :: "string \<Rightarrow> string" where
  "TrimLeftSpace s = (if spaceWidth s = 0 then s else TrimLeftSpace (drop (spaceWidth s) s))"
  by pat_completeness auto

termination TrimLeftSpace
proof (relation "measure length")
  fix s :: string
  assume "spaceWidth s \<noteq> 0"
  moreover have "spaceWidth s \<le> length s" by (rule spaceWidth_le)
  ultimately show "(drop (spaceWidth s) s, s) \<in> measure length" by simp
qed simp

declare TrimLeftSpace.simps [simp del]

text \<open>\<open>dropLastSpace r\<close> trims the reversed string \<open>r\<close> at its front, the string's end.\<close>

function dropLastSpace :: "string \<Rightarrow> string" where
  "dropLastSpace r =
     (if lastSpaceWidth r = 0 then r else dropLastSpace (drop (lastSpaceWidth r) r))"
  by pat_completeness auto

termination dropLastSpace
proof (relation "measure length")
  fix r :: string
  assume "lastSpaceWidth r \<noteq> 0"
  moreover have "lastSpaceWidth r \<le> length r" by (rule lastSpaceWidth_le)
  ultimately show "(drop (lastSpaceWidth r) r, r) \<in> measure length" by simp
qed simp

declare dropLastSpace.simps [simp del]

definition TrimRightSpace :: "string \<Rightarrow> string" where
  "TrimRightSpace s = rev (dropLastSpace (rev s))"

definition TrimSpace :: "string \<Rightarrow> string" where
  "TrimSpace s = TrimRightSpace (TrimLeftSpace s)"

section \<open>The service name resolver and the test name\<close>

text \<open>
  \<open>parseServiceName\<close> returns the pair (service name, service module), in the order of
  the source's \<open>return serviceName, serviceModule\<close>.
\<close>

definition parseServiceName :: "string \<Rightarrow> string \<Rightarrow> string \<times> string" where
  "parseServiceName fullServiceName serviceModule =
     (if length serviceModule > 0
      then (TrimPrefix fullServiceName (serviceModule @ ''_''), serviceModule)
      else
        let serviceNames = Split fullServiceName (CHR ''_'') in
        if length serviceNames = 1 then ('''', serviceNames ! 0)
        else if length serviceNames = 2 then (serviceNames ! 1, serviceNames ! 0)
        else ('''', serviceModule))"

definition getTestName :: "string \<Rightarrow> string" where
  "getTestName serviceName = TrimRight serviceName ''-job''"

section \<open>Effects, time and the context\<close>

text \<open>
  The functions of \<open>sse.go\<close> return nothing: what they do is call collaborators, write
  log messages and send lines on \<open>streamChan\<close>. The model threads a state through
  them: a clock and the trace of the effects so far, each with the instant it happened at.
  An instant is a nanosecond; an effect takes one, and a call that blocks takes as long
  as the world says. A log message is recorded with its level and format string.
\<close>

datatype level = Debug | Info | Error

text \<open>
  A label selector: \<open>labels.Set(label.GetJobLabels(&label.JobLabel{...})).AsSelector()\<close>
  with the five fields of the job label (pipeline name, task id, task type, service name,
  pipeline type), or \<open>labels.Set(m).AsSelector()\<close> for a map \<open>m\<close>.
\<close>

datatype Selector =
    JobLabels string "64 word" string string string
  | SetSelector "(string \<times> string) list"

type_synonym client = string

text \<open>The fields of \<open>commonrepo.BuildFindOption\<close> that the source sets.\<close>

record BuildFindOption =
  bf_ProductName :: string
  bf_Targets :: "string list"
  bf_ServiceName :: string

datatype event =
    LogMsg level string
  | FindTaskCall string string
  | BuildFindCall BuildFindOption
  | WorkflowFindCall string "64 word"
  | TestingFindCall string string
  | GetClientsetCall string string
  | WaitCall string Selector client
  | GetKubeClientCall string string
  | ListPodsCall string Selector client
  | OpenCall string string string bool "64 word" client
  | CtxCheck bool
  | ReadCall
  | Push string
  | CloseCall

record state =
  clock :: nat
  trace :: "(nat \<times> event) list"

definition emit :: "event \<Rightarrow> state \<Rightarrow> state" where
  "emit e s = s\<lparr>clock := Suc (clock s), trace := trace s @ [(clock s, e)]\<rparr>"

text \<open>
  A \<open>context.Context\<close> is the instant from which its \<open>Done()\<close> channel is closed, by
  cancellation or by a deadline; \<open>None\<close> when that never happens. It may fall between
  any two effects of the goroutine that watches it.
\<close>

record Context =
  done_at :: "nat option"

definition ctx_done :: "Context \<Rightarrow> nat \<Rightarrow> bool" where
  "ctx_done c t = (case done_at c of None \<Rightarrow> False | Some d \<Rightarrow> d \<le> t)"

text \<open>\<open>time.Minute\<close> in nanoseconds, and the constant \<open>timeout\<close> of the source.\<close>

definition Minute :: nat where
  "Minute = 60 * 1000000000"

definition timeout :: nat where
  "timeout = 5 * Minute"

text \<open>
  \<open>context.WithTimeout(parent, d)\<close> called at instant \<open>now\<close>: done at \<open>now + d\<close>, or
  when the parent is, whichever comes first.
\<close>

definition WithTimeout :: "Context \<Rightarrow> nat \<Rightarrow> nat \<Rightarrow> Context" where
  "WithTimeout parent now d =
     \<lparr>done_at = Some (case done_at parent of None \<Rightarrow> now + d | Some p \<Rightarrow> min p (now + d))\<rparr>"

section \<open>The log streamer\<close>

text \<open>
  The read handle \<open>out\<close> is the bytes it delivers, the error that ends them (\<open>io.EOF\<close>
  or another error) and what \<open>Close\<close> returns.
\<close>

datatype read_error = EOF | ReadError string

record ReadCloser =
  content :: string
  ending :: read_error
  close_error :: "string option"

text \<open>
  \<open>bufio.Reader.ReadString(delim)\<close> on the bytes \<open>buf\<close> still to come, ended by \<open>fin\<close>:
  the bytes up to and including the first delimiter and no error, or, when there is no
  delimiter left, all the bytes and the error. The third component is what is left to read.
\<close>

definition ReadString ::
  "string \<Rightarrow> read_error \<Rightarrow> char \<Rightarrow> string \<times> read_error option \<times> string" where
  "ReadString buf fin delim =
     (case IndexByte buf delim of
        Some m \<Rightarrow> (take (Suc m) buf, None, drop (Suc m) buf)
      | None \<Rightarrow> (buf, Some fin, []))"

lemma ReadString_shorter:
  "ReadString buf fin delim = (line, None, rest) \<Longrightarrow> length rest < length buf"
  by (auto simp: ReadString_def split: option.splits dest: IndexByte_less)

text \<open>
  The sink \<open>streamChan\<close>, seen from the sender: \<open>room\<close> is the number of values the
  channel will still take, in its buffer and by the receives to come, and \<open>None\<close> when it
  takes every value sent. The sends of the source are plain sends, outside any \<open>select\<close>:
  a send completes when there is room, and blocks for ever when there is none, whatever
  the context does.
\<close>

record Chan =
  room :: "nat option"

definition send :: "Chan \<Rightarrow> Chan option" where
  "send ch =
     (case room ch of
        None \<Rightarrow> Some ch
      | Some n \<Rightarrow> (case n of 0 \<Rightarrow> None | Suc k \<Rightarrow> Some (ch\<lparr>room := Some k\<rparr>)))"

text \<open>
  How a call ends: it returns, it panics (a \<open>nil\<close> pointer dereference), or it never
  returns (it is blocked for ever); in the last case the state is the one it is stuck in.
\<close>

datatype outcome = Returned | Panicked | Blocked

text \<open>
  \<open>streamChan <- line\<close>: the channel and the state after the send, or \<open>None\<close> when the
  send blocks for ever.
\<close>

definition push :: "Chan \<Rightarrow> string \<Rightarrow> state \<Rightarrow> (Chan \<times> state) option" where
  "push ch line s = map_option (\<lambda>ch'. (ch', emit (Push line) s)) (send ch)"

text \<open>
  The \<open>for\<close> loop of \<open>containerLogStream\<close>. The \<open>select\<close> takes \<open><-ctx.Done()\<close>
  when the context is done at that instant and the \<open>default\<close> branch otherwise; the
  three \<open>if\<close> statements on \<open>err\<close> follow in the order of the source.
\<close>

function stream_loop ::
  "Context \<Rightarrow> Chan \<Rightarrow> read_error \<Rightarrow> string \<Rightarrow> state \<Rightarrow> outcome \<times> state" where
  "stream_loop ctx streamChan fin buf s =
     (if ctx_done ctx (clock s)
      then (Returned,
            emit (LogMsg Info ''Connection is closed, container log stream stopped'')
              (emit (CtxCheck True) s))
      else
        case ReadString buf fin (CHR 0x0A) of (line, err, rest) \<Rightarrow>
          let s1 = emit ReadCall (emit (CtxCheck False) s)
          in
            (case (if err = None then push streamChan (TrimSpace line) s1
                   else Some (streamChan, s1)) of
               None \<Rightarrow> (Blocked, s1)
             | Some (ch2, s2) \<Rightarrow>
                 if err = Some EOF then
                   (case (if length (TrimSpace line) > 0 then push ch2 (TrimSpace line) s2
                          else Some (ch2, s2)) of
                      None \<Rightarrow> (Blocked, s2)
                    | Some (ch3, s3) \<Rightarrow>
                        (Returned,
                         emit (LogMsg Info
                           ''No more input is available, container log stream stopped'') s3))
                 else if err \<noteq> None then
                   (Returned, emit (LogMsg Error ''scan container log stream error: %v'') s2)
                 else stream_loop ctx ch2 fin rest s2))"
  by pat_completeness auto

termination stream_loop
  by (relation "measure (\<lambda>(ctx, streamChan, fin, buf, s). length buf)")
    (auto dest: ReadString_shorter [OF sym])

declare stream_loop.simps [simp del]

section \<open>The request, the settings and the collaborators\<close>

record GetContainerOptions =
  Namespace :: string
  PipelineName :: string
  SubTask :: string
  JobName :: string
  JobType :: string
  TailLines :: "64 word"
  TaskID :: "64 word"
  PipelineType :: string
  ServiceName :: string
  ServiceModule :: string
  TestName :: string
  EnvName :: string
  ProductName :: string
  ClusterID :: string

text \<open>
  The constants of packages \<open>setting\<close> and \<open>config\<close> that the source names; their values
  are not in the source files, so every theorem holds for any values.
\<close>

record settings =
  LocalClusterID :: string
  AttachedClusterNamespace :: string
  config_Namespace :: string
  HubServerAddress :: string
  ServiceType :: string
  TaskBuild :: string
  TaskTestingV2 :: string
  JobZadigBuild :: string
  JobFreestyle :: string
  JobZadigTesting :: string
  JobZadigScanning :: string
  JobZadigDistributeImage :: string
  JobBuild :: string
  JobPlugin :: string
  JobLabelSTypeKey :: string
  JobLabelNameKey :: string

text \<open>
  The records the metadata store returns, with the fields the source reads. \<open>PreBuild\<close>
  and \<open>PreTest\<close> are pointers: \<open>None\<close> is \<open>nil\<close>, \<open>Some c\<close> a value whose \<open>ClusterID\<close>
  is \<open>c\<close>. \<open>job_Spec\<close> is the undecoded payload of a job.
\<close>

record Task =
  task_TaskID :: "64 word"

record Build =
  PreBuild :: "string option"

record Testing =
  PreTest :: "string option"

record JobTask =
  job_Name :: string
  job_K8sJobName :: string
  job_JobType :: string
  job_Spec :: string

record StageTask =
  Jobs :: "JobTask list"

record WorkflowTask =
  Stages :: "StageTask list"

record Pod =
  pod_Name :: string

text \<open>What the cluster does with the pods a selector matches.\<close>

datatype pod_watch = RunningAt nat | NeverRunning | WatchError string

text \<open>
  The collaborators. A call that returns \<open>(x, err)\<close> is a sum, \<open>Inl\<close> the error; a
  pointer result that may be \<open>nil\<close> is an option. \<open>IToi_Freestyle\<close> and \<open>IToi_Plugin\<close>
  are \<open>commonmodels.IToi\<close> into a \<open>JobTaskFreestyleSpec\<close> and a \<open>JobTaskPluginSpec\<close>:
  the error, or the \<open>Properties.ClusterID\<close> of the decoded value.
\<close>

record world =
  cfg :: settings
  FindTask :: "string \<Rightarrow> string \<Rightarrow> string + Task"
  BuildFind :: "BuildFindOption \<Rightarrow> string + Build option"
  WorkflowTaskFind :: "string \<Rightarrow> 64 word \<Rightarrow> string + WorkflowTask"
  TestingFind :: "string \<Rightarrow> string \<Rightarrow> Testing option \<times> string option"
  IToi_Freestyle :: "string \<Rightarrow> string + string"
  IToi_Plugin :: "string \<Rightarrow> string + string"
  GetClientset :: "string \<Rightarrow> string \<Rightarrow> string + client"
  GetKubeClient :: "string \<Rightarrow> string \<Rightarrow> string + client"
  pod_running :: "string \<Rightarrow> Selector \<Rightarrow> client \<Rightarrow> pod_watch"
  ListPods :: "string \<Rightarrow> Selector \<Rightarrow> client \<Rightarrow> string + Pod list"
  GetContainerLogStream ::
    "string \<Rightarrow> string \<Rightarrow> string \<Rightarrow> bool \<Rightarrow> 64 word \<Rightarrow> client \<Rightarrow> string + ReadCloser"

datatype wait_result = WaitOk nat | WaitFailed nat | WaitForever

text \<open>
  Modelled from the spec: \<open>watcher.WaitUntilPodRunning\<close> is not among the source files.
  The spec has it poll the pod watch under the deadline of its context until a matching pod
  is running or the deadline elapses, and fail on the deadline or on an error of the watch.
  Called at \<open>now\<close>, it returns at the instant given: as soon as a pod is running, if the
  context is not done by then; when the context is done, otherwise; never, when no pod
  runs and the context is never done.
\<close>

definition WaitUntilPodRunning :: "Context \<Rightarrow> nat \<Rightarrow> pod_watch \<Rightarrow> wait_result" where
  "WaitUntilPodRunning podCtx now watch =
     (case watch of
        WatchError e \<Rightarrow> WaitFailed now
      | RunningAt r \<Rightarrow>
          (case done_at podCtx of
             None \<Rightarrow> WaitOk (max now r)
           | Some d \<Rightarrow> if d \<le> max now r then WaitFailed (max now d) else WaitOk (max now r))
      | NeverRunning \<Rightarrow>
          (case done_at podCtx of
             None \<Rightarrow> WaitForever
           | Some d \<Rightarrow> WaitFailed (max now d)))"

text \<open>
  \<open>containerLogStream\<close>: open the handle, run the loop, and close the handle when the
  function returns (the deferred call), whichever way the loop ended. A loop that is
  blocked for ever in a send does not return, and the deferred call does not run.
\<close>

definition containerLogStream ::
  "world \<Rightarrow> Context \<Rightarrow> Chan \<Rightarrow> string \<Rightarrow> string \<Rightarrow> string \<Rightarrow> bool \<Rightarrow> 64 word \<Rightarrow> client \<Rightarrow>
   state \<Rightarrow> outcome \<times> state" where
  "containerLogStream w ctx streamChan namespace podName containerName follow tailLines cl s =
     (let s1 = emit (LogMsg Info ''[GetContainerLogsSSE] Get container log of pod %s'') s;
          s2 = emit (OpenCall namespace podName containerName follow tailLines cl) s1
      in (case GetContainerLogStream w namespace podName containerName follow tailLines cl of
            Inl err \<Rightarrow>
              (Returned, emit (LogMsg Error ''kubeCli.GetContainerLogStream error: %v'') s2)
          | Inr out \<Rightarrow>
              (let looped = stream_loop ctx streamChan (ending out) (content out) s2
               in if fst looped = Blocked then (Blocked, snd looped)
                  else
                    (let s4 = emit CloseCall (snd looped)
                     in (case close_error out of
                           None \<Rightarrow> (Returned, s4)
                         | Some err \<Rightarrow>
                             (Returned,
                              emit (LogMsg Error
                                ''Failed to close container log stream, error: %v'') s4))))))"

text \<open>
  \<open>waitAndGetLog\<close>. The pod wait runs under \<open>PodCtx\<close>, the log stream under the
  caller's \<open>ctx\<close>; the wait moves the clock to the instant it returns at.
\<close>

definition waitAndGetLog ::
  "world \<Rightarrow> Context \<Rightarrow> Chan \<Rightarrow> Selector \<Rightarrow> GetContainerOptions \<Rightarrow> state \<Rightarrow> outcome \<times> state"
  where
  "waitAndGetLog w ctx streamChan selector options s =
     (let PodCtx = WithTimeout ctx (clock s) timeout;
          s1 = emit (LogMsg Debug
                 ''Waiting until pod is running before establishing the stream. labelSelector: %+v, clusterId: %s, namespace: %s'') s;
          s2 = emit (GetClientsetCall (HubServerAddress (cfg w)) (ClusterID options)) s1
      in (case GetClientset w (HubServerAddress (cfg w)) (ClusterID options) of
            Inl err \<Rightarrow>
              (Returned, emit (LogMsg Error ''GetContainerLogs, get client set error: %s'') s2)
          | Inr clientSet \<Rightarrow>
              (let s3 = emit (WaitCall (Namespace options) selector clientSet) s2
               in (case WaitUntilPodRunning PodCtx (clock s3)
                         (pod_running w (Namespace options) selector clientSet) of
                     WaitForever \<Rightarrow> (Blocked, s3)
                   | WaitFailed t \<Rightarrow>
                       (Returned,
                        emit (LogMsg Error ''GetContainerLogs, wait pod running error: %s'')
                          (s3\<lparr>clock := t\<rparr>))
                   | WaitOk t \<Rightarrow>
                       (let s4 = emit (GetKubeClientCall (HubServerAddress (cfg w))
                                   (ClusterID options)) (s3\<lparr>clock := t\<rparr>)
                        in (case GetKubeClient w (HubServerAddress (cfg w)) (ClusterID options) of
                              Inl err \<Rightarrow>
                                (Returned,
                                 emit (LogMsg Error
                                   ''GetContainerLogs, get kube client error: %s'') s4)
                            | Inr kubeClient \<Rightarrow>
                                (let s5 = emit (ListPodsCall (Namespace options) selector
                                            kubeClient) s4
                                 in (case ListPods w (Namespace options) selector kubeClient of
                                       Inl err \<Rightarrow>
                                         (Returned,
                                          emit (LogMsg Error
                                            ''GetContainerLogs, get pod error: %+v'') s5)
                                     | Inr pods \<Rightarrow>
                                         (let s6 = emit (LogMsg Debug
                                                     ''Found %d running pods'') s5
                                          in if length pods > 0
                                             then containerLogStream w ctx streamChan
                                                    (Namespace options) (pod_Name (pods ! 0))
                                                    (SubTask options) True (TailLines options)
                                                    clientSet s6
                                             else (Returned, s6))))))))))"

section \<open>The entry points\<close>

text \<open>
  An entry point takes the pointer \<open>options\<close> (\<open>None\<close> is \<open>nil\<close>) and changes the
  request it points to; the model returns how the call ended, the request as the call left
  it, and the state. Inside a function, \<open>Return\<close> is a \<open>return\<close> statement reached and
  \<open>Continue\<close> the fall through to the statements that follow.
\<close>

datatype ('r, 'c) flow = Return 'r | Continue 'c

definition with_options ::
  "GetContainerOptions \<Rightarrow> outcome \<times> state \<Rightarrow> outcome \<times> GetContainerOptions option \<times> state" where
  "with_options options rs = (fst rs, Some options, snd rs)"

text \<open>
  \<open>TaskContainerLogStream\<close>, lines 160 to 183: the build lookup, tried again without the
  product name when it fails.
\<close>

definition Task_findBuild ::
  "world \<Rightarrow> string \<Rightarrow> string \<Rightarrow> string \<Rightarrow> state \<Rightarrow> (state, Build option \<times> state) flow" where
  "Task_findBuild w productName serviceName serviceModule s =
     (let buildFindOptions =
            \<lparr>bf_ProductName = productName, bf_Targets = [serviceModule],
             bf_ServiceName = (if serviceName \<noteq> '''' then serviceName else '''')\<rparr>;
          s1 = emit (BuildFindCall buildFindOptions) s
      in (case BuildFind w buildFindOptions of
            Inr build \<Rightarrow> Continue (build, s1)
          | Inl err \<Rightarrow>
              (let buildFindOptions' =
                     \<lparr>bf_ProductName = '''', bf_Targets = [serviceModule],
                      bf_ServiceName = (if serviceName \<noteq> '''' then serviceName else '''')\<rparr>;
                   s2 = emit (BuildFindCall buildFindOptions') s1
               in (case BuildFind w buildFindOptions' of
                     Inr build \<Rightarrow> Continue (build, s2)
                   | Inl err' \<Rightarrow>
                       Return (emit (LogMsg Error
                         ''Failed to query build for service %s: %s'') s2)))))"

text \<open>
  \<open>TaskContainerLogStream\<close>, lines 148 to 195: the environment case synthesizes the
  pipeline name and looks the task up; the build case looks the build up and, when it
  declares a cluster, assigns the cluster id and then the namespace by the \<open>switch\<close>.
\<close>

definition Task_jobContext ::
  "world \<Rightarrow> GetContainerOptions \<Rightarrow> state \<Rightarrow>
   (GetContainerOptions \<times> state, GetContainerOptions \<times> state) flow" where
  "Task_jobContext w options s =
     (let serviceName = fst (parseServiceName (ServiceName options) (ServiceModule options));
          serviceModule = snd (parseServiceName (ServiceName options) (ServiceModule options))
      in
        if EnvName options \<noteq> '''' \<and> ProductName options \<noteq> '''' \<and> PipelineName options = ''''
        then
          (let o1 = options\<lparr>PipelineName :=
                      serviceName @ ''-'' @ EnvName options @ ''-'' @ ''job''\<rparr>;
               s1 = emit (FindTaskCall (PipelineName o1) (ServiceType (cfg w))) s
           in (case FindTask w (PipelineName o1) (ServiceType (cfg w)) of
                 Inr taskObj \<Rightarrow> Continue (o1\<lparr>TaskID := task_TaskID taskObj\<rparr>, s1)
               | Inl err \<Rightarrow> Continue (o1, s1)))
        else if ProductName options \<noteq> ''''
        then
          (case Task_findBuild w (ProductName options) serviceName serviceModule s of
             Return s1 \<Rightarrow> Return (options, s1)
           | Continue (build, s1) \<Rightarrow>
               (if build \<noteq> None \<and> PreBuild (the build) \<noteq> None
                   \<and> the (PreBuild (the build)) \<noteq> ''''
                then
                  (let o1 = options\<lparr>ClusterID := the (PreBuild (the build))\<rparr>
                   in if the (PreBuild (the build)) = LocalClusterID (cfg w)
                      then Continue (o1\<lparr>Namespace := config_Namespace (cfg w)\<rparr>, s1)
                      else Continue (o1\<lparr>Namespace := AttachedClusterNamespace (cfg w)\<rparr>, s1))
                else Continue (options, s1)))
        else Continue (options, s))"

definition TaskContainerLogStream ::
  "world \<Rightarrow> Context \<Rightarrow> Chan \<Rightarrow> GetContainerOptions option \<Rightarrow> state \<Rightarrow>
   outcome \<times> GetContainerOptions option \<times> state" where
  "TaskContainerLogStream w ctx streamChan options s =
     (case options of
        None \<Rightarrow> (Returned, None, s)
      | Some o0 \<Rightarrow>
          (case Task_jobContext w o0
                  (emit (LogMsg Debug ''Start to get task container log.'') s) of
             Return (o1, s1) \<Rightarrow> (Returned, Some o1, s1)
           | Continue (o1, s1) \<Rightarrow>
               (let o2 = (if SubTask o1 = '''' then o1\<lparr>SubTask := TaskBuild (cfg w)\<rparr> else o1);
                    selector = JobLabels (PipelineName o2) (TaskID o2) (SubTask o2)
                                 (ServiceName o2) (PipelineType o2)
                in with_options o2 (waitAndGetLog w ctx streamChan selector o2 s1))))"

text \<open>
  \<open>WorkflowTaskV4ContainerLogStream\<close>, lines 227 to 255: the \<open>switch\<close> on the job type.
  It gives the cluster id of the decoded job spec, or the format string of the error the
  function logs before it returns.
\<close>

definition Workflow_jobClusterID :: "world \<Rightarrow> JobTask \<Rightarrow> string + string" where
  "Workflow_jobClusterID w job =
     (if job_JobType job = JobZadigBuild (cfg w) \<or> job_JobType job = JobFreestyle (cfg w)
         \<or> job_JobType job = JobZadigTesting (cfg w)
         \<or> job_JobType job = JobZadigScanning (cfg w)
         \<or> job_JobType job = JobZadigDistributeImage (cfg w)
         \<or> job_JobType job = JobBuild (cfg w)
      then (case IToi_Freestyle w (job_Spec job) of
              Inl err \<Rightarrow> Inl ''Failed to parse job spec: %v''
            | Inr clusterID \<Rightarrow> Inr clusterID)
      else if job_JobType job = JobPlugin (cfg w)
      then (case IToi_Plugin w (job_Spec job) of
              Inl err \<Rightarrow> Inl ''Failed to parse job spec: %v''
            | Inr clusterID \<Rightarrow> Inr clusterID)
      else Inl ''get real-time log error, unsupported job type %s'')"

text \<open>
  Lines 225 to 265, the body of the inner loop for the job whose name is the sub-task: an
  empty cluster id becomes the local one, then the \<open>switch\<close> assigns the namespace, and
  \<open>break\<close> leaves the inner loop.
\<close>

definition Workflow_job ::
  "world \<Rightarrow> JobTask \<Rightarrow> GetContainerOptions \<Rightarrow> state \<Rightarrow>
   (GetContainerOptions \<times> state, GetContainerOptions \<times> state) flow" where
  "Workflow_job w job options s =
     (let o1 = options\<lparr>JobName := job_K8sJobName job, JobType := job_JobType job\<rparr>
      in (case Workflow_jobClusterID w job of
            Inl msg \<Rightarrow> Return (o1, emit (LogMsg Error msg) s)
          | Inr clusterID \<Rightarrow>
              (let o2 = o1\<lparr>ClusterID := clusterID\<rparr>;
                   o3 = (if ClusterID o2 = '''' then o2\<lparr>ClusterID := LocalClusterID (cfg w)\<rparr>
                         else o2)
               in if ClusterID o3 = LocalClusterID (cfg w)
                  then Continue (o3\<lparr>Namespace := config_Namespace (cfg w)\<rparr>, s)
                  else Continue (o3\<lparr>Namespace := AttachedClusterNamespace (cfg w)\<rparr>, s))))"

text \<open>The inner loop over the jobs of a stage and the outer loop over the stages.\<close>

fun scan_jobs ::
  "world \<Rightarrow> JobTask list \<Rightarrow> GetContainerOptions \<Rightarrow> state \<Rightarrow>
   (GetContainerOptions \<times> state, GetContainerOptions \<times> state) flow" where
  "scan_jobs w [] options s = Continue (options, s)"
| "scan_jobs w (job # jobs) options s =
     (if job_Name job \<noteq> SubTask options then scan_jobs w jobs options s
      else Workflow_job w job options s)"

fun scan_stages ::
  "world \<Rightarrow> StageTask list \<Rightarrow> GetContainerOptions \<Rightarrow> state \<Rightarrow>
   (GetContainerOptions \<times> state, GetContainerOptions \<times> state) flow" where
  "scan_stages w [] options s = Continue (options, s)"
| "scan_stages w (stage # stages) options s =
     (case scan_jobs w (Jobs stage) options s of
        Return r \<Rightarrow> Return r
      | Continue (options', s') \<Rightarrow> scan_stages w stages options' s')"

text \<open>\<open>strings.Replace(s, old, new, -1)\<close> for \<open>old\<close> and \<open>new\<close> of one byte each.\<close>

definition Replace_all :: "string \<Rightarrow> char \<Rightarrow> char \<Rightarrow> string" where
  "Replace_all s old new = map (\<lambda>c. if c = old then new else c) s"

definition getWorkflowSelector :: "settings \<Rightarrow> GetContainerOptions \<Rightarrow> Selector" where
  "getWorkflowSelector c options =
     (let retMap =
            [(JobLabelSTypeKey c, Replace_all (JobType options) (CHR ''_'') (CHR ''-'')),
             (JobLabelNameKey c, Replace_all (JobName options) (CHR ''_'') (CHR ''-''))]
      in SetSelector (filter (\<lambda>kv. length (snd kv) \<noteq> 0) retMap))"

definition WorkflowTaskV4ContainerLogStream ::
  "world \<Rightarrow> Context \<Rightarrow> Chan \<Rightarrow> GetContainerOptions option \<Rightarrow> state \<Rightarrow>
   outcome \<times> GetContainerOptions option \<times> state" where
  "WorkflowTaskV4ContainerLogStream w ctx streamChan options s =
     (case options of
        None \<Rightarrow> (Returned, None, s)
      | Some o0 \<Rightarrow>
          (let s1 = emit (LogMsg Debug ''Start to get task container log.'') s;
               s2 = emit (WorkflowFindCall (PipelineName o0) (TaskID o0)) s1
           in (case WorkflowTaskFind w (PipelineName o0) (TaskID o0) of
                 Inl err \<Rightarrow>
                   (Returned, Some o0,
                    emit (LogMsg Error ''Failed to find workflow %s taskID %s: %v'') s2)
               | Inr task \<Rightarrow>
                   (case scan_stages w (Stages task) o0 s2 of
                      Return (o1, s3) \<Rightarrow> (Returned, Some o1, s3)
                    | Continue (o1, s3) \<Rightarrow>
                        with_options o1
                          (waitAndGetLog w ctx streamChan (getWorkflowSelector (cfg w) o1) o1 s3)))))"

text \<open>
  \<open>TestJobContainerLogStream\<close>, lines 283 to 294: the cluster and namespace of the test
  found under the test name; the error of the lookup is dropped.
\<close>

definition TestJob_jobContext :: "world \<Rightarrow> GetContainerOptions \<Rightarrow> GetContainerOptions" where
  "TestJob_jobContext w options =
     (let testing = fst (TestingFind w (getTestName (ServiceName options)) '''')
      in if testing \<noteq> None \<and> PreTest (the testing) \<noteq> None
            \<and> the (PreTest (the testing)) \<noteq> ''''
         then
           (let o1 = options\<lparr>ClusterID := the (PreTest (the testing))\<rparr>
            in if the (PreTest (the testing)) = LocalClusterID (cfg w)
               then o1\<lparr>Namespace := config_Namespace (cfg w)\<rparr>
               else o1\<lparr>Namespace := AttachedClusterNamespace (cfg w)\<rparr>)
         else options)"

text \<open>
  The first statement of \<open>TestJobContainerLogStream\<close> writes through \<open>options\<close>: with a
  \<open>nil\<close> pointer the goroutine panics there.
\<close>

definition TestJobContainerLogStream ::
  "world \<Rightarrow> Context \<Rightarrow> Chan \<Rightarrow> GetContainerOptions option \<Rightarrow> state \<Rightarrow>
   outcome \<times> GetContainerOptions option \<times> state" where
  "TestJobContainerLogStream w ctx streamChan options s =
     (case options of
        None \<Rightarrow> (Panicked, None, s)
      | Some o0 \<Rightarrow>
          (let o1 = o0\<lparr>SubTask := TaskTestingV2 (cfg w)\<rparr>;
               selector = JobLabels (PipelineName o1) (TaskID o1) (SubTask o1)
                            (ServiceName o1) (PipelineType o1);
               s1 = emit (TestingFindCall (getTestName (ServiceName o1)) '''') s;
               o2 = TestJob_jobContext w o1
           in with_options o2 (waitAndGetLog w ctx streamChan selector o2 s1)))"

section \<open>What a run is observed by\<close>

text \<open>The lines sent on \<open>streamChan\<close>, in order.\<close>

definition push_of :: "event \<Rightarrow> string list" where
  "push_of e = (case e of Push l \<Rightarrow> [l] | _ \<Rightarrow> [])"

definition pushed :: "state \<Rightarrow> string list" where
  "pushed s = concat (map (\<lambda>(t, e). push_of e) (trace s))"


text \<open>The log streams opened, each with the arguments of the call.\<close>

definition open_of ::
  "event \<Rightarrow> (string \<times> string \<times> string \<times> bool \<times> 64 word \<times> client) list" where
  "open_of e = (case e of OpenCall ns pod c f n cl \<Rightarrow> [(ns, pod, c, f, n, cl)] | _ \<Rightarrow> [])"

definition opens ::
  "state \<Rightarrow> (string \<times> string \<times> string \<times> bool \<times> 64 word \<times> client) list" where
  "opens s = concat (map (\<lambda>(t, e). open_of e) (trace s))"

text \<open>The effects between a state and a later one.\<close>

definition new_events :: "state \<Rightarrow> state \<Rightarrow> (nat \<times> event) list" where
  "new_events s s' = drop (length (trace s)) (trace s')"

text \<open>
  The final partial line as the spec has it pushed: once, trimmed, when it is not empty
  after trimming.
\<close>

definition final_line :: "string \<Rightarrow> string list" where
  "final_line s = (if length (TrimSpace s) > 0 then [TrimSpace s] else [])"

text \<open>
  The lines the spec has the sink receive for an input whose bytes are \<open>buf\<close> and whose
  end is \<open>fin\<close>: every newline-terminated line trimmed, in input order, then the final
  partial line when the input ends with \<open>io.EOF\<close>.
\<close>

definition expected_lines :: "read_error \<Rightarrow> string \<Rightarrow> string list" where
  "expected_lines fin buf =
     map TrimSpace (butlast (Split buf (CHR 0x0A)))
       @ (if fin = EOF then final_line (last (Split buf (CHR 0x0A))) else [])"

text \<open>The sink takes \<open>n\<close> more values: no send among the next \<open>n\<close> blocks.\<close>

definition sends_complete :: "Chan \<Rightarrow> nat \<Rightarrow> bool" where
  "sends_complete ch n = (case room ch of None \<Rightarrow> True | Some r \<Rightarrow> n \<le> r)"

text \<open>
  White space, stated apart from \<open>TrimSpace\<close>: the code points with the Unicode property
  \<open>White_Space\<close>, which is what \<open>unicode.IsSpace\<close> tests, and the UTF-8 encoding of a
  code point below U+10000.
\<close>

definition White_Space :: "nat list" where
  "White_Space =
     [0x09, 0x0A, 0x0B, 0x0C, 0x0D, 0x20, 0x85, 0xA0, 0x1680,
      0x2000, 0x2001, 0x2002, 0x2003, 0x2004, 0x2005, 0x2006, 0x2007, 0x2008, 0x2009, 0x200A,
      0x2028, 0x2029, 0x202F, 0x205F, 0x3000]"

definition utf8 :: "nat \<Rightarrow> string" where
  "utf8 n =
     (if n < 0x80 then [char_of n]
      else if n < 0x800 then [char_of (0xC0 + n div 0x40), char_of (0x80 + n mod 0x40)]
      else [char_of (0xE0 + n div 0x1000), char_of (0x80 + n div 0x40 mod 0x40),
            char_of (0x80 + n mod 0x40)])"

definition white_space :: "string list" where
  "white_space = map utf8 White_Space"

text \<open>A string that begins, or ends, with a white space code point.\<close>

definition starts_with_space :: "string \<Rightarrow> bool" where
  "starts_with_space s \<longleftrightarrow> (\<exists>w \<in> set white_space. take (length w) s = w)"

definition ends_with_space :: "string \<Rightarrow> bool" where
  "ends_with_space s \<longleftrightarrow>
     (\<exists>w \<in> set white_space. length w \<le> length s \<and> drop (length s - length w) s = w)"

text \<open>A string made of white space code points only.\<close>

inductive all_space :: "string \<Rightarrow> bool" where
  empty: "all_space []"
| more: "w \<in> set white_space \<Longrightarrow> all_space r \<Longrightarrow> all_space (w @ r)"

text \<open>
  \<open>t\<close> is \<open>s\<close> trimmed of surrounding white space: \<open>s\<close> is \<open>t\<close> between two runs of
  white space, and \<open>t\<close> neither begins nor ends with white space.
\<close>

definition trimmed_of :: "string \<Rightarrow> string \<Rightarrow> bool" where
  "trimmed_of s t \<longleftrightarrow>
     (\<exists>pre post. s = pre @ t @ post \<and> all_space pre \<and> all_space post) \<and>
     \<not> starts_with_space t \<and> \<not> ends_with_space t"

text \<open>
  A read is guarded when the context was not done one instant before it, at the
  \<open>select\<close>, and a push when the context was not done two instants before it.
\<close>

definition guarded :: "Context \<Rightarrow> nat \<times> event \<Rightarrow> bool" where
  "guarded ctx te =
     (case snd te of
        ReadCall \<Rightarrow> 1 \<le> fst te \<and> \<not> ctx_done ctx (fst te - 1)
      | Push l \<Rightarrow> 2 \<le> fst te \<and> \<not> ctx_done ctx (fst te - 2)
      | _ \<Rightarrow> True)"

text \<open>The number of pushes made at an instant at which the context is done.\<close>

definition late_pushes :: "Context \<Rightarrow> (nat \<times> event) list \<Rightarrow> nat" where
  "late_pushes ctx evs =
     length (filter (\<lambda>te. ctx_done ctx (fst te) \<and> push_of (snd te) \<noteq> []) evs)"

text \<open>
  The namespace rule in the words of the spec: the local cluster id maps to the default
  namespace, every other cluster id to the namespace of the attached clusters.
\<close>

definition namespaceOf :: "settings \<Rightarrow> string \<Rightarrow> string" where
  "namespaceOf c clusterID =
     (if clusterID = LocalClusterID c then config_Namespace c else AttachedClusterNamespace c)"

text \<open>
  A request after a call follows the rule when the call left its namespace and cluster id
  alone, or its namespace is the one the rule gives for its cluster id.
\<close>

definition follows_rule :: "settings \<Rightarrow> GetContainerOptions \<Rightarrow> GetContainerOptions \<Rightarrow> bool" where
  "follows_rule c options options' \<longleftrightarrow>
     Namespace options' = Namespace options \<and> ClusterID options' = ClusterID options
     \<or> Namespace options' = namespaceOf c (ClusterID options')"

text \<open>
  The build the task entry point finds for a request: the one found under the product
  name, the module and the service name, or, when that lookup fails, the one found
  without the product name.
\<close>

definition build_found :: "world \<Rightarrow> GetContainerOptions \<Rightarrow> Build option \<Rightarrow> bool" where
  "build_found w options build \<longleftrightarrow>
     (let serviceName = fst (parseServiceName (ServiceName options) (ServiceModule options));
          serviceModule = snd (parseServiceName (ServiceName options) (ServiceModule options));
          byProduct = \<lparr>bf_ProductName = ProductName options, bf_Targets = [serviceModule],
                       bf_ServiceName = serviceName\<rparr>;
          shared = \<lparr>bf_ProductName = '''', bf_Targets = [serviceModule],
                    bf_ServiceName = serviceName\<rparr>
      in BuildFind w byProduct = Inr build
         \<or> isl (BuildFind w byProduct) \<and> BuildFind w shared = Inr build)"

text \<open>
  The cluster id a workflow job declares: the \<open>Properties.ClusterID\<close> of its spec, decoded
  as a freestyle spec for the six job types of that kind and as a plugin spec for a plugin
  job.
\<close>

definition job_cluster :: "world \<Rightarrow> JobTask \<Rightarrow> string \<Rightarrow> bool" where
  "job_cluster w job c \<longleftrightarrow>
     job_JobType job \<in> {JobZadigBuild (cfg w), JobFreestyle (cfg w), JobZadigTesting (cfg w),
        JobZadigScanning (cfg w), JobZadigDistributeImage (cfg w), JobBuild (cfg w)}
       \<and> IToi_Freestyle w (job_Spec job) = Inr c
     \<or> job_JobType job \<notin> {JobZadigBuild (cfg w), JobFreestyle (cfg w), JobZadigTesting (cfg w),
        JobZadigScanning (cfg w), JobZadigDistributeImage (cfg w), JobBuild (cfg w)}
       \<and> job_JobType job = JobPlugin (cfg w) \<and> IToi_Plugin w (job_Spec job) = Inr c"

text \<open>
  The jobs among the stages of a workflow task that the request names: in each stage the
  first job whose name is the sub-task, in the order of the stages.
\<close>

definition named_jobs :: "StageTask list \<Rightarrow> string \<Rightarrow> JobTask list" where
  "named_jobs stages subTask =
     List.map_filter (\<lambda>stage. find (\<lambda>job. job_Name job = subTask) (Jobs stage)) stages"

text \<open>
  Between \<open>s\<close> and \<open>s'\<close> no log stream was opened, or one was, in follow mode, for the
  container named by the sub-task of the request.
\<close>

definition one_follow_open :: "state \<Rightarrow> GetContainerOptions \<Rightarrow> state \<Rightarrow> bool" where
  "one_follow_open s options s' \<longleftrightarrow>
     opens s' = opens s \<or>
     (\<exists>pod cl. opens s' =
        opens s @ [(Namespace options, pod, SubTask options, True, TailLines options, cl)])"

section \<open>An example world\<close>

definition example_settings :: settings where
  "example_settings =
     \<lparr>LocalClusterID = ''local-cluster'', AttachedClusterNamespace = ''attached-ns'',
      config_Namespace = ''default-ns'', HubServerAddress = ''hub'',
      ServiceType = ''service'', TaskBuild = ''build'', TaskTestingV2 = ''testing'',
      JobZadigBuild = ''zadig-build'', JobFreestyle = ''freestyle'',
      JobZadigTesting = ''zadig-test'', JobZadigScanning = ''zadig-scanning'',
      JobZadigDistributeImage = ''zadig-distribute-image'', JobBuild = ''build-job'',
      JobPlugin = ''plugin'', JobLabelSTypeKey = ''s-type'', JobLabelNameKey = ''s-job''\<rparr>"

definition example_job :: JobTask where
  "example_job =
     \<lparr>job_Name = ''build-job'', job_K8sJobName = ''wf1-7-build'',
      job_JobType = ''zadig-build'', job_Spec = ''''\<rparr>"

text \<open>
  A world in which every lookup succeeds: the build is on an attached cluster, the test on
  the local one, the job spec decodes to the cluster id it holds, and the log stream of
  the one pod is \<open>out\<close>.
\<close>

definition example_world :: "ReadCloser \<Rightarrow> pod_watch \<Rightarrow> world" where
  "example_world out watch =
     \<lparr>cfg = example_settings,
      FindTask = (\<lambda>name typ. Inr \<lparr>task_TaskID = 7\<rparr>),
      BuildFind = (\<lambda>opt. Inr (Some \<lparr>PreBuild = Some ''cluster-2''\<rparr>)),
      WorkflowTaskFind = (\<lambda>name taskID. Inr \<lparr>Stages = [\<lparr>Jobs = [example_job]\<rparr>]\<rparr>),
      TestingFind = (\<lambda>name product. (Some \<lparr>PreTest = Some ''local-cluster''\<rparr>, None)),
      IToi_Freestyle = (\<lambda>spec. Inr spec),
      IToi_Plugin = (\<lambda>spec. Inr spec),
      GetClientset = (\<lambda>hub cluster. Inr ''clientset''),
      GetKubeClient = (\<lambda>hub cluster. Inr ''kubeclient''),
      pod_running = (\<lambda>namespace selector cl. watch),
      ListPods = (\<lambda>namespace selector cl. Inr [\<lparr>pod_Name = ''pod-1''\<rparr>]),
      GetContainerLogStream = (\<lambda>namespace pod container follow tail cl. Inr out)\<rparr>"

definition example_options :: GetContainerOptions where
  "example_options =
     \<lparr>Namespace = '''', PipelineName = ''wf1'', SubTask = ''build-job'', JobName = '''',
      JobType = '''', TailLines = 100, TaskID = 7, PipelineType = '''',
      ServiceName = ''mod_svc'', ServiceModule = '''', TestName = '''', EnvName = '''',
      ProductName = ''proj'', ClusterID = ''''\<rparr>"

definition example_stream :: ReadCloser where
  "example_stream = \<lparr>content = ''l1\<newline>l2\<newline>l3'', ending = EOF, close_error = None\<rparr>"

text \<open>
  The input of the example with white space around its lines: two spaces and a trailing
  space, a tab and a carriage return, and U+3000 and U+00A0 in their UTF-8 encoding.
\<close>

definition spaced_stream :: ReadCloser where
  "spaced_stream =
     \<lparr>content = ''  l1 \<newline>'' @ [CHR 0x09] @ ''l2'' @ [CHR 0x0D] @ ''\<newline>''
                 @ [CHR 0xE3, CHR 0x80, CHR 0x80] @ ''l3'' @ [CHR 0xC2, CHR 0xA0],
      ending = EOF, close_error = None\<rparr>"

text \<open>
  A workflow task of two stages. The job the request names is in both; in the second
  stage it comes after a job of another name and before a second job of its own name.
\<close>

definition example_stages :: "StageTask list" where
  "example_stages =
     [\<lparr>Jobs = [example_job]\<rparr>,
      \<lparr>Jobs = [example_job\<lparr>job_Name := ''deploy'', job_Spec := ''cluster-4''\<rparr>,
               example_job\<lparr>job_K8sJobName := ''wf1-7-build-2'', job_Spec := ''cluster-2''\<rparr>,
               example_job\<lparr>job_K8sJobName := ''wf1-7-build-3'', job_Spec := ''cluster-3''\<rparr>]\<rparr>]"

definition staged_world :: world where
  "staged_world =
     (example_world example_stream NeverRunning)
       \<lparr>WorkflowTaskFind := (\<lambda>name taskID. Inr \<lparr>Stages = example_stages\<rparr>)\<rparr>"
section \<open>Facts about the string functions\<close>

lemma IndexByte_None_iff: "IndexByte s c = None \<longleftrightarrow> c \<notin> set s"
  by (induction s) auto

lemma IndexByte_append: "c \<notin> set a \<Longrightarrow> IndexByte (a @ c # b) c = Some (length a)"
  by (induction a) auto

lemma IndexByte_Some_decomp:
  "IndexByte s c = Some m \<Longrightarrow> s = take m s @ c # drop (Suc m) s \<and> c \<notin> set (take m s)"
  by (induction s arbitrary: m) (auto split: if_splits)

lemma Split_notin: "sep \<notin> set s \<Longrightarrow> Split s sep = [s]"
  by (subst Split.simps) (simp add: IndexByte_None_iff [THEN iffD2])

lemma Split_append: "sep \<notin> set a \<Longrightarrow> Split (a @ sep # b) sep = a # Split b sep"
  by (subst Split.simps) (simp add: IndexByte_append)

text \<open>A string has one segment more than it has separators.\<close>

lemma length_Split: "length (Split s sep) = Suc (count_list s sep)"
proof (induction s sep rule: Split.induct)
  case (1 s sep)
  show ?case
  proof (cases "IndexByte s sep")
    case None
    then have "sep \<notin> set s" by (simp add: IndexByte_None_iff)
    then show ?thesis by (simp add: Split_notin)
  next
    case (Some m)
    from IndexByte_Some_decomp [OF Some]
    have d: "s = take m s @ sep # drop (Suc m) s" and n: "sep \<notin> set (take m s)" by simp_all
    have "count_list s sep = count_list (take m s @ sep # drop (Suc m) s) sep"
      using d by simp
    also have "\<dots> = Suc (count_list (drop (Suc m) s) sep)"
      using n by (simp add: count_list_0_iff [THEN iffD2])
    finally have c: "count_list s sep = Suc (count_list (drop (Suc m) s) sep)" .
    have "Split s sep = take m s # Split (drop (Suc m) s) sep"
      by (subst Split.simps) (simp add: Some)
    then show ?thesis using "1.IH" [OF Some] c by simp
  qed
qed

section \<open>The service name resolver\<close>

text \<open>
  Claim C6. With no explicit module, \<open>parseServiceName\<close> splits the composite identifier
  on \<open>"_"\<close>: one segment is the module and the service name is empty; of two segments the
  first is the module and the second the service name; with any other number of segments
  both results are empty. The function is total and has no effect: it is a HOL function
  of its two arguments.
\<close>

theorem parseServiceName_segments:
  "(Split full (CHR ''_'') = [a] \<longrightarrow> parseServiceName full '''' = ('''', a)) \<and>
   (Split full (CHR ''_'') = [a, b] \<longrightarrow> parseServiceName full '''' = (b, a)) \<and>
   (length (Split full (CHR ''_'')) \<noteq> 1 \<and> length (Split full (CHR ''_'')) \<noteq> 2 \<longrightarrow>
      parseServiceName full '''' = ('''', ''''))"
  by (simp add: parseServiceName_def Let_def)

theorem parseServiceName_segments_witness:
  "Split ''svc'' (CHR ''_'') = [''svc''] \<and> parseServiceName ''svc'' '''' = ('''', ''svc'') \<and>
   Split ''mod_svc'' (CHR ''_'') = [''mod'', ''svc''] \<and>
   parseServiceName ''mod_svc'' '''' = (''svc'', ''mod'') \<and>
   length (Split ''a_b_c'' (CHR ''_'')) = 3 \<and> parseServiceName ''a_b_c'' '''' = ('''', '''')"
proof -
  have s1: "Split ''svc'' (CHR ''_'') = [''svc'']" by (simp add: Split.simps)
  have s2: "Split ''mod_svc'' (CHR ''_'') = [''mod'', ''svc'']" by (simp add: Split.simps)
  have s3: "Split ''a_b_c'' (CHR ''_'') = [''a'', ''b'', ''c'']" by (simp add: Split.simps)
  show ?thesis
    using parseServiceName_segments [of "''svc''" "''svc''"]
      parseServiceName_segments [of "''mod_svc''" "''mod''" "''svc''"]
      parseServiceName_segments [of "''a_b_c''"] s1 s2 s3
    by simp
qed

text \<open>
  Claim C7, as stated, says that an identifier with no underscore gives the empty string
  for both the module and the service name. It does not: \<open>"svc"\<close> has no underscore and
  its module is \<open>"svc"\<close>.
\<close>

theorem parseServiceName_no_underscore_counterexample:
  "count_list ''svc'' (CHR ''_'') = 0 \<and> parseServiceName ''svc'' '''' = ('''', ''svc'') \<and>
   parseServiceName ''svc'' '''' \<noteq> ('''', '''')"
  by (simp add: parseServiceName_def Split.simps)

text \<open>
  Claim C7, amended. With no explicit module: an identifier \<open>A_B\<close> with exactly one
  underscore gives module \<open>A\<close> and service name \<open>B\<close>; an identifier with no underscore
  is the module itself, with an empty service name (the legacy format); an identifier with
  more than one underscore gives the empty string for both. The function is total.
\<close>

theorem parseServiceName_underscores:
  "(CHR ''_'' \<notin> set A \<and> CHR ''_'' \<notin> set B \<longrightarrow>
      parseServiceName (A @ ''_'' @ B) '''' = (B, A)) \<and>
   (count_list s (CHR ''_'') = 0 \<longrightarrow> parseServiceName s '''' = ('''', s)) \<and>
   (count_list s (CHR ''_'') > 1 \<longrightarrow> parseServiceName s '''' = ('''', ''''))"
proof (intro conjI impI)
  assume "CHR ''_'' \<notin> set A \<and> CHR ''_'' \<notin> set B"
  then have "Split (A @ ''_'' @ B) (CHR ''_'') = [A, B]"
    by (simp add: Split_append Split_notin)
  then show "parseServiceName (A @ ''_'' @ B) '''' = (B, A)"
    by (simp add: parseServiceName_def)
next
  assume "count_list s (CHR ''_'') = 0"
  then have "CHR ''_'' \<notin> set s" by (simp add: count_list_0_iff)
  then have "Split s (CHR ''_'') = [s]" by (rule Split_notin)
  then show "parseServiceName s '''' = ('''', s)"
    by (simp add: parseServiceName_def)
next
  assume "count_list s (CHR ''_'') > 1"
  then have "length (Split s (CHR ''_'')) > 2" by (simp add: length_Split)
  then show "parseServiceName s '''' = ('''', '''')"
    by (simp add: parseServiceName_def Let_def)
qed

theorem parseServiceName_underscores_witness:
  "parseServiceName (''mod'' @ ''_'' @ ''svc'') '''' = (''svc'', ''mod'') \<and>
   parseServiceName ''svc'' '''' = ('''', ''svc'') \<and>
   parseServiceName ''a_b_c'' '''' = ('''', '''')"
  using parseServiceName_underscores [of "''mod''" "''svc''" "''svc''"]
    parseServiceName_underscores [of "''mod''" "''svc''" "''a_b_c''"]
  by simp

section \<open>The test name\<close>

text \<open>
  Claim C8 says that \<open>getTestName\<close> removes the suffix \<open>"-job"\<close> and nothing else. The
  source calls \<open>strings.TrimRight\<close>, whose second argument is a set of bytes: every
  trailing \<open>-\<close>, \<open>j\<close>, \<open>o\<close> and \<open>b\<close> goes. \<open>"demo-job"\<close> becomes \<open>"dem"\<close> where trimming
  the suffix gives \<open>"demo"\<close>, and \<open>"job"\<close>, which does not end with \<open>"-job"\<close>, becomes
  empty.
\<close>

theorem getTestName_cutset:
  "HasSuffix ''demo-job'' ''-job'' \<and> getTestName ''demo-job'' = ''dem'' \<and>
   TrimSuffix ''demo-job'' ''-job'' = ''demo'' \<and>
   \<not> HasSuffix ''job'' ''-job'' \<and> getTestName ''job'' = ''''"
  by (simp add: getTestName_def TrimRight_def TrimSuffix_def HasSuffix_def)

section \<open>Facts about the trace\<close>

lemma pushed_emit: "pushed (emit e s) = pushed s @ push_of e"
  by (simp add: pushed_def emit_def)


lemma opens_emit: "opens (emit e s) = opens s @ open_of e"
  by (simp add: opens_def emit_def)

lemma clock_emit: "clock (emit e s) = Suc (clock s)"
  by (simp add: emit_def)

lemma trace_emit: "trace (emit e s) = trace s @ [(clock s, e)]"
  by (simp add: emit_def)

lemma opens_clock [simp]: "opens (s\<lparr>clock := t\<rparr>) = opens s"
  by (simp add: opens_def)

lemma pushed_clock [simp]: "pushed (s\<lparr>clock := t\<rparr>) = pushed s"
  by (simp add: pushed_def)

lemma emit_clock: "clock (emit e (s\<lparr>clock := t\<rparr>)) = Suc t"
  by (simp add: emit_def)

lemma opens_init: "opens \<lparr>clock = t, trace = []\<rparr> = []"
  by (simp add: opens_def)

section \<open>Trimming a line that ends with a newline\<close>

lemma spaceWidth_append: "spaceWidth s \<noteq> 0 \<Longrightarrow> spaceWidth (s @ t) = spaceWidth s"
proof (induction s rule: spaceWidth.induct)
  case 1
  then show ?case by simp
next
  case (2 c)
  then show ?case by (cases t rule: spaceWidth.cases) (auto split: if_splits)
next
  case (3 c d)
  then show ?case by (cases t) (auto split: if_splits)
next
  case (4 c d e r)
  then show ?case by (auto split: if_splits)
qed

lemma not_space_newline:
  "\<not> space2 c (CHR 0x0A)" "\<not> space3 c d (CHR 0x0A)"
  by (simp_all add: space2_def space3_def spaceE2_def)

lemma spaceWidth_newline:
  "s \<noteq> [] \<Longrightarrow> spaceWidth s = 0 \<Longrightarrow> spaceWidth (s @ [CHR 0x0A]) = 0"
  by (induction s rule: spaceWidth.induct) (auto simp: not_space_newline split: if_splits)

text \<open>
  Trimming on the left takes the newline at the end only when the whole line is white
  space.
\<close>

lemma TrimLeftSpace_newline:
  "TrimLeftSpace (s @ [CHR 0x0A]) =
     (if TrimLeftSpace s = [] then [] else TrimLeftSpace s @ [CHR 0x0A])"
proof (induction s rule: TrimLeftSpace.induct)
  case (1 s)
  show ?case
  proof (cases "spaceWidth s = 0")
    case True
    then have t: "TrimLeftSpace s = s" by (subst TrimLeftSpace.simps) simp
    show ?thesis
    proof (cases "s = []")
      case True
      have "TrimLeftSpace [CHR 0x0A] = TrimLeftSpace []"
        by (subst TrimLeftSpace.simps) (simp add: asciiSpace_def)
      also have "\<dots> = []" by (subst TrimLeftSpace.simps) simp
      finally show ?thesis using True t by simp
    next
      case False
      with True have "spaceWidth (s @ [CHR 0x0A]) = 0" by (simp add: spaceWidth_newline)
      then have "TrimLeftSpace (s @ [CHR 0x0A]) = s @ [CHR 0x0A]"
        by (subst TrimLeftSpace.simps) simp
      with t False show ?thesis by simp
    qed
  next
    case False
    then have w: "spaceWidth (s @ [CHR 0x0A]) = spaceWidth s" by (rule spaceWidth_append)
    have le: "spaceWidth s \<le> length s" by (rule spaceWidth_le)
    have "TrimLeftSpace (s @ [CHR 0x0A]) = TrimLeftSpace (drop (spaceWidth s) s @ [CHR 0x0A])"
      using False w le by (subst TrimLeftSpace.simps) simp
    moreover have "TrimLeftSpace s = TrimLeftSpace (drop (spaceWidth s) s)"
      using False by (subst TrimLeftSpace.simps) simp
    ultimately show ?thesis using "1.IH" [OF False] by simp
  qed
qed

lemma dropLastSpace_newline: "dropLastSpace (CHR 0x0A # r) = dropLastSpace r"
proof -
  have "lastSpaceWidth (CHR 0x0A # r) = 1"
    by (cases "CHR 0x0A # r" rule: lastSpaceWidth.cases) (auto simp: asciiSpace_def)
  then show ?thesis by (subst dropLastSpace.simps) simp
qed

lemma TrimSpace_newline: "TrimSpace (s @ [CHR 0x0A]) = TrimSpace s"
  by (simp add: TrimSpace_def TrimRightSpace_def TrimLeftSpace_newline dropLastSpace_newline)

lemmas TrimSpace_eval = TrimSpace_def TrimRightSpace_def TrimLeftSpace.simps
  dropLastSpace.simps asciiSpace_def space2_def space3_def

lemma TrimSpace_examples:
  "TrimSpace ''l1'' = ''l1''" "TrimSpace ''l2'' = ''l2''" "TrimSpace ''l3'' = ''l3''"
  by (simp_all add: TrimSpace_eval)

section \<open>Trimming, against white space stated apart from it\<close>

text \<open>The encodings of the white space code points, byte by byte.\<close>

lemma white_space_bytes:
  "white_space =
     [CHR 0x09] # [CHR 0x0A] # [CHR 0x0B] # [CHR 0x0C] # [CHR 0x0D] # [CHR 0x20] #
     [CHR 0xC2, CHR 0x85] # [CHR 0xC2, CHR 0xA0] # [CHR 0xE1, CHR 0x9A, CHR 0x80] #
     [CHR 0xE2, CHR 0x80, CHR 0x80] # [CHR 0xE2, CHR 0x80, CHR 0x81] #
     [CHR 0xE2, CHR 0x80, CHR 0x82] # [CHR 0xE2, CHR 0x80, CHR 0x83] #
     [CHR 0xE2, CHR 0x80, CHR 0x84] # [CHR 0xE2, CHR 0x80, CHR 0x85] #
     [CHR 0xE2, CHR 0x80, CHR 0x86] # [CHR 0xE2, CHR 0x80, CHR 0x87] #
     [CHR 0xE2, CHR 0x80, CHR 0x88] # [CHR 0xE2, CHR 0x80, CHR 0x89] #
     [CHR 0xE2, CHR 0x80, CHR 0x8A] # [CHR 0xE2, CHR 0x80, CHR 0xA8] #
     [CHR 0xE2, CHR 0x80, CHR 0xA9] # [CHR 0xE2, CHR 0x80, CHR 0xAF] #
     [CHR 0xE2, CHR 0x81, CHR 0x9F] # [CHR 0xE3, CHR 0x80, CHR 0x80] # []"
  by (simp add: white_space_def White_Space_def utf8_def char_of_def bit_0)

lemma white_space_1: "asciiSpace c \<Longrightarrow> [c] \<in> set white_space"
  unfolding white_space_bytes asciiSpace_def by (elim disjE; simp)

lemma white_space_2: "space2 c d \<Longrightarrow> [c, d] \<in> set white_space"
  unfolding white_space_bytes space2_def by (elim disjE conjE; simp)

lemma white_space_3: "space3 c d e \<Longrightarrow> [c, d, e] \<in> set white_space"
  unfolding white_space_bytes space3_def spaceE2_def by (elim disjE conjE; simp)

lemma white_space_shape:
  assumes "w \<in> set white_space"
  shows "(\<exists>c. w = [c] \<and> asciiSpace c)
     \<or> (\<exists>c d. w = [c, d] \<and> \<not> asciiSpace c \<and> space2 c d)
     \<or> (\<exists>c d e. w = [c, d, e] \<and> \<not> asciiSpace c \<and> \<not> space2 c d \<and> space3 c d e)"
  using assms unfolding white_space_bytes set_simps insert_iff empty_iff
  by (elim disjE; simp add: asciiSpace_def space2_def space3_def spaceE2_def)

lemma space2_second: "space2 c d \<Longrightarrow> \<not> asciiSpace d"
  unfolding space2_def asciiSpace_def by (elim disjE conjE; simp)

lemma space3_third: "space3 c d e \<Longrightarrow> \<not> asciiSpace e \<and> \<not> space2 d e"
  unfolding space3_def spaceE2_def asciiSpace_def space2_def by (elim disjE conjE; simp)

text \<open>The width functions accept the white space code points and nothing else.\<close>

lemma spaceWidth_white:
  assumes "w \<in> set white_space"
  shows "spaceWidth (w @ r) = length w \<and> w \<noteq> []"
proof -
  consider c where "w = [c]" "asciiSpace c"
    | c d where "w = [c, d]" "\<not> asciiSpace c" "space2 c d"
    | c d e where "w = [c, d, e]" "\<not> asciiSpace c" "\<not> space2 c d" "space3 c d e"
    using white_space_shape [OF assms] by blast
  then show ?thesis
  proof cases
    case 1
    then show ?thesis by (cases r rule: spaceWidth.cases) simp_all
  next
    case 2
    then show ?thesis by (cases r) simp_all
  next
    case 3
    then show ?thesis by simp
  qed
qed

lemma lastSpaceWidth_white:
  assumes "w \<in> set white_space"
  shows "lastSpaceWidth (rev w @ r) = length w"
proof -
  consider c where "w = [c]" "asciiSpace c"
    | c d where "w = [c, d]" "\<not> asciiSpace c" "space2 c d"
    | c d e where "w = [c, d, e]" "\<not> asciiSpace c" "\<not> space2 c d" "space3 c d e"
    using white_space_shape [OF assms] by blast
  then show ?thesis
  proof cases
    case 1
    then show ?thesis by (cases r rule: spaceWidth.cases) simp_all
  next
    case 2
    then have "\<not> asciiSpace d" by (simp add: space2_second)
    with 2 show ?thesis by (cases r) simp_all
  next
    case 3
    then have "\<not> asciiSpace e" "\<not> space2 d e" by (simp_all add: space3_third)
    with 3 show ?thesis by simp
  qed
qed

lemma spaceWidth_take:
  "spaceWidth s \<noteq> 0 \<Longrightarrow> take (spaceWidth s) s \<in> set white_space"
  by (induction s rule: spaceWidth.induct)
    (auto simp: white_space_1 white_space_2 white_space_3 split: if_splits)

lemma lastSpaceWidth_take:
  "lastSpaceWidth r \<noteq> 0 \<Longrightarrow> rev (take (lastSpaceWidth r) r) \<in> set white_space"
  by (induction r rule: lastSpaceWidth.induct)
    (auto simp: white_space_1 white_space_2 white_space_3 split: if_splits)

lemma all_space_one: "w \<in> set white_space \<Longrightarrow> all_space w"
  using all_space.more [OF _ all_space.empty] by simp

lemma all_space_append: "all_space a \<Longrightarrow> all_space b \<Longrightarrow> all_space (a @ b)"
  by (induction a rule: all_space.induct) (auto intro: all_space.more)

text \<open>Trimming on the left removes a run of white space and leaves no white space in front.\<close>

lemma TrimLeftSpace_spec:
  "(\<exists>pre. s = pre @ TrimLeftSpace s \<and> all_space pre) \<and> spaceWidth (TrimLeftSpace s) = 0"
proof (induction s rule: TrimLeftSpace.induct)
  case (1 s)
  show ?case
  proof (cases "spaceWidth s = 0")
    case True
    then have "TrimLeftSpace s = s" by (subst TrimLeftSpace.simps) simp
    with True show ?thesis using all_space.empty by auto
  next
    case False
    let ?n = "spaceWidth s"
    have t: "TrimLeftSpace s = TrimLeftSpace (drop ?n s)"
      using False by (subst TrimLeftSpace.simps) simp
    from "1.IH" [OF False] obtain pre where
      p: "drop ?n s = pre @ TrimLeftSpace (drop ?n s)" "all_space pre"
      and z: "spaceWidth (TrimLeftSpace (drop ?n s)) = 0" by blast
    have "s = take ?n s @ drop ?n s" by simp
    then have "s = (take ?n s @ pre) @ TrimLeftSpace s" using p(1) t by simp
    moreover have "all_space (take ?n s @ pre)"
      using spaceWidth_take [OF False] p(2) by (rule all_space.more)
    ultimately show ?thesis using z t by metis
  qed
qed

lemma dropLastSpace_spec:
  "(\<exists>q. r = q @ dropLastSpace r \<and> all_space (rev q)) \<and> lastSpaceWidth (dropLastSpace r) = 0"
proof (induction r rule: dropLastSpace.induct)
  case (1 r)
  show ?case
  proof (cases "lastSpaceWidth r = 0")
    case True
    then have "dropLastSpace r = r" by (subst dropLastSpace.simps) simp
    with True show ?thesis using all_space.empty by auto
  next
    case False
    let ?n = "lastSpaceWidth r"
    have t: "dropLastSpace r = dropLastSpace (drop ?n r)"
      using False by (subst dropLastSpace.simps) simp
    from "1.IH" [OF False] obtain q where
      p: "drop ?n r = q @ dropLastSpace (drop ?n r)" "all_space (rev q)"
      and z: "lastSpaceWidth (dropLastSpace (drop ?n r)) = 0" by blast
    have "r = take ?n r @ drop ?n r" by simp
    then have "r = (take ?n r @ q) @ dropLastSpace r" using p(1) t by simp
    moreover have "all_space (rev (take ?n r))"
      using lastSpaceWidth_take [OF False] by (rule all_space_one)
    then have "all_space (rev (take ?n r @ q))"
      using all_space_append [OF p(2)] by simp
    ultimately show ?thesis using z t by metis
  qed
qed

lemma not_starts_with_space: "spaceWidth s = 0 \<Longrightarrow> \<not> starts_with_space s"
proof
  assume z: "spaceWidth s = 0" and "starts_with_space s"
  then obtain w where w: "w \<in> set white_space" "take (length w) s = w"
    by (auto simp: starts_with_space_def)
  have "s = w @ drop (length w) s" using w(2) by (metis append_take_drop_id)
  then have "spaceWidth s = length w \<and> w \<noteq> []" using spaceWidth_white [OF w(1)] by metis
  with z show False by simp
qed

lemma not_ends_with_space: "lastSpaceWidth (rev s) = 0 \<Longrightarrow> \<not> ends_with_space s"
proof
  assume z: "lastSpaceWidth (rev s) = 0" and "ends_with_space s"
  then obtain w where w: "w \<in> set white_space" "length w \<le> length s"
    "drop (length s - length w) s = w"
    by (auto simp: ends_with_space_def)
  have "s = take (length s - length w) s @ w" using w(3) by (metis append_take_drop_id)
  then have "rev s = rev w @ rev (take (length s - length w) s)" by (metis rev_append)
  then have "lastSpaceWidth (rev s) = length w" using lastSpaceWidth_white [OF w(1)] by metis
  moreover have "w \<noteq> []" using spaceWidth_white [OF w(1)] by simp
  ultimately show False using z by simp
qed

text \<open>
  \<open>TrimSpace\<close> against the statement of trimming that does not mention it: the string is
  its trimmed form between two runs of white space, and the trimmed form neither begins
  nor ends with white space.
\<close>

lemma TrimSpace_trimmed: "trimmed_of s (TrimSpace s)"
proof -
  let ?l = "TrimLeftSpace s"
  let ?t = "TrimSpace s"
  obtain pre where pre: "s = pre @ ?l" "all_space pre" and lz: "spaceWidth ?l = 0"
    using TrimLeftSpace_spec [of s] by blast
  obtain q where q: "rev ?l = q @ dropLastSpace (rev ?l)" "all_space (rev q)"
    and rz: "lastSpaceWidth (dropLastSpace (rev ?l)) = 0"
    using dropLastSpace_spec [of "rev ?l"] by blast
  have t: "?t = rev (dropLastSpace (rev ?l))" by (simp add: TrimSpace_def TrimRightSpace_def)
  have "rev (rev ?l) = rev (q @ dropLastSpace (rev ?l))" using q(1) by simp
  then have l: "?l = ?t @ rev q" by (simp add: t)
  have s: "s = pre @ ?t @ rev q" using pre(1) l by simp
  have e: "\<not> ends_with_space ?t" using rz by (intro not_ends_with_space) (simp add: t)
  have b: "\<not> starts_with_space ?t"
  proof
    assume "starts_with_space ?t"
    then obtain w where w: "w \<in> set white_space" "take (length w) ?t = w"
      by (auto simp: starts_with_space_def)
    have "length w \<le> length ?t" using arg_cong [OF w(2), of length] by simp
    then have "take (length w) ?l = w" using w(2) by (subst l) simp
    then have "starts_with_space ?l" using w(1) by (auto simp: starts_with_space_def)
    with not_starts_with_space [OF lz] show False by simp
  qed
  show ?thesis unfolding trimmed_of_def using s pre(2) q(2) b e by blast
qed

section \<open>The streaming loop\<close>

lemma Split_nonempty: "Split s sep \<noteq> []"
  by (subst Split.simps) (simp split: option.splits)

lemma IndexByte_nth: "IndexByte s c = Some m \<Longrightarrow> s ! m = c"
  by (induction s arbitrary: m) (auto split: if_splits)

lemma count_list_IndexByte_Some:
  "IndexByte s c = Some m \<Longrightarrow> count_list s c = Suc (count_list (drop (Suc m) s) c)"
  by (induction s arbitrary: m) (auto split: if_splits)

lemma ReadString_None:
  "IndexByte buf d = None \<Longrightarrow> ReadString buf fin d = (buf, Some fin, [])"
  by (simp add: ReadString_def)

lemma ReadString_Some:
  assumes "IndexByte buf d = Some m"
  shows "ReadString buf fin d = (take m buf @ [d], None, drop (Suc m) buf)"
proof -
  have "m < length buf" using assms by (rule IndexByte_less)
  moreover have "buf ! m = d" using assms by (rule IndexByte_nth)
  ultimately have "take (Suc m) buf = take m buf @ [d]"
    by (simp add: take_Suc_conv_app_nth)
  then show ?thesis using assms by (simp add: ReadString_def)
qed

text \<open>The three ways an iteration goes: the context is done at the \<open>select\<close>.\<close>

lemma stream_loop_done:
  "ctx_done ctx (clock s) \<Longrightarrow>
     stream_loop ctx streamChan fin buf s =
       (Returned,
        emit (LogMsg Info ''Connection is closed, container log stream stopped'')
          (emit (CtxCheck True) s))"
  by (subst stream_loop.simps) simp

text \<open>
  The read returns a whole line: the line is sent and the loop goes on, or the send
  blocks.
\<close>

lemma stream_loop_step:
  assumes "\<not> ctx_done ctx (clock s)" and "IndexByte buf (CHR 0x0A) = Some m"
  shows "stream_loop ctx streamChan fin buf s =
           (case send streamChan of
              None \<Rightarrow> (Blocked, emit ReadCall (emit (CtxCheck False) s))
            | Some ch \<Rightarrow>
                stream_loop ctx ch fin (drop (Suc m) buf)
                  (emit (Push (TrimSpace (take m buf)))
                     (emit ReadCall (emit (CtxCheck False) s))))"
  using assms(1)
  by (subst stream_loop.simps)
    (simp add: ReadString_Some [OF assms(2)] push_def TrimSpace_newline split: option.splits)

text \<open>
  The read returns the rest of the input and the error that ends it: the final partial
  line is sent when the error is \<open>io.EOF\<close> and the line is not empty after trimming.
\<close>

lemma stream_loop_last:
  assumes "\<not> ctx_done ctx (clock s)" and "IndexByte buf (CHR 0x0A) = None"
  shows "stream_loop ctx streamChan fin buf s =
           (if fin = EOF then
              (if TrimSpace buf \<noteq> [] then
                 (case send streamChan of
                    None \<Rightarrow> (Blocked, emit ReadCall (emit (CtxCheck False) s))
                  | Some ch \<Rightarrow>
                      (Returned,
                       emit (LogMsg Info
                         ''No more input is available, container log stream stopped'')
                         (emit (Push (TrimSpace buf))
                            (emit ReadCall (emit (CtxCheck False) s)))))
               else
                 (Returned,
                  emit (LogMsg Info
                    ''No more input is available, container log stream stopped'')
                    (emit ReadCall (emit (CtxCheck False) s))))
            else
              (Returned,
               emit (LogMsg Error ''scan container log stream error: %v'')
                 (emit ReadCall (emit (CtxCheck False) s))))"
  using assms(1)
  by (subst stream_loop.simps)
    (simp add: ReadString_None [OF assms(2)] push_def split: option.splits)

lemma Split_None: "IndexByte buf c = None \<Longrightarrow> Split buf c = [buf]"
  by (subst Split.simps) simp

lemma Split_Some:
  "IndexByte buf c = Some m \<Longrightarrow> Split buf c = take m buf # Split (drop (Suc m) buf) c"
  by (subst Split.simps) simp

lemma expected_lines_None:
  "IndexByte buf (CHR 0x0A) = None \<Longrightarrow>
     expected_lines fin buf = (if fin = EOF \<and> TrimSpace buf \<noteq> [] then [TrimSpace buf] else [])"
  by (simp add: expected_lines_def Split_None final_line_def)

lemma expected_lines_Some:
  "IndexByte buf (CHR 0x0A) = Some m \<Longrightarrow>
     expected_lines fin buf = TrimSpace (take m buf) # expected_lines fin (drop (Suc m) buf)"
  by (simp add: expected_lines_def Split_Some Split_nonempty)

lemma send_complete:
  "sends_complete ch (Suc n) \<Longrightarrow> \<exists>ch'. send ch = Some ch' \<and> sends_complete ch' n"
  by (cases "room ch") (auto simp: send_def sends_complete_def split: nat.splits)

lemma ctx_done_mono: "ctx_done ctx t \<Longrightarrow> t \<le> t' \<Longrightarrow> ctx_done ctx t'"
  by (auto simp: ctx_done_def split: option.splits)

text \<open>
  Whatever the context and the sink do, the lines pushed are the first lines of the input,
  in order.
\<close>

lemma stream_loop_prefix:
  "\<exists>k. pushed (snd (stream_loop ctx streamChan fin buf s)) =
          pushed s @ take k (expected_lines fin buf)"
proof (induction buf arbitrary: s streamChan rule: length_induct)
  case (1 buf)
  show ?case
  proof (cases "ctx_done ctx (clock s)")
    case True
    have "pushed (snd (stream_loop ctx streamChan fin buf s)) =
        pushed s @ take 0 (expected_lines fin buf)"
      by (simp add: stream_loop_done [OF True] pushed_emit push_of_def)
    then show ?thesis by (rule exI)
  next
    case False
    show ?thesis
    proof (cases "IndexByte buf (CHR 0x0A)")
      case None
      show ?thesis
      proof (cases "send streamChan")
        case n: None
        have "pushed (snd (stream_loop ctx streamChan fin buf s)) =
            pushed s @ take (if fin = EOF \<and> TrimSpace buf \<noteq> [] then 0 else 1)
              (expected_lines fin buf)"
          by (simp add: stream_loop_last [OF False None] expected_lines_None [OF None] n
              pushed_emit push_of_def)
        then show ?thesis by (rule exI)
      next
        case (Some ch)
        have "pushed (snd (stream_loop ctx streamChan fin buf s)) =
            pushed s @ take 1 (expected_lines fin buf)"
          by (simp add: stream_loop_last [OF False None] expected_lines_None [OF None] Some
              pushed_emit push_of_def)
        then show ?thesis by (rule exI)
      qed
    next
      case (Some m)
      have sh: "length (drop (Suc m) buf) < length buf"
        using IndexByte_less [OF Some] by simp
      show ?thesis
      proof (cases "send streamChan")
        case None
        have "pushed (snd (stream_loop ctx streamChan fin buf s)) =
            pushed s @ take 0 (expected_lines fin buf)"
          by (simp add: stream_loop_step [OF False Some] None pushed_emit push_of_def)
        then show ?thesis by (rule exI)
      next
        case ch: (Some ch)
        let ?s2 = "emit (Push (TrimSpace (take m buf)))
                     (emit ReadCall (emit (CtxCheck False) s))"
        from "1.IH" [rule_format, OF sh, of ch ?s2] obtain k where
          k: "pushed (snd (stream_loop ctx ch fin (drop (Suc m) buf) ?s2)) =
                pushed ?s2 @ take k (expected_lines fin (drop (Suc m) buf))"
          by blast
        have "pushed (snd (stream_loop ctx streamChan fin buf s)) =
            pushed s @ take (Suc k) (expected_lines fin buf)"
          by (simp add: stream_loop_step [OF False Some] ch k expected_lines_Some [OF Some]
              pushed_emit push_of_def)
        then show ?thesis by (rule exI)
      qed
    qed
  qed
qed

text \<open>
  When the context is not done at the \<open>select\<close> of the last iteration, three instants
  after the first for each newline of the input, and the sink takes every line, the loop
  returns and every line of the input was pushed.
\<close>

lemma stream_loop_complete:
  "\<not> ctx_done ctx (clock s + 3 * count_list buf (CHR 0x0A)) \<Longrightarrow>
   sends_complete streamChan (length (expected_lines fin buf)) \<Longrightarrow>
     fst (stream_loop ctx streamChan fin buf s) = Returned \<and>
     pushed (snd (stream_loop ctx streamChan fin buf s)) = pushed s @ expected_lines fin buf"
proof (induction buf arbitrary: s streamChan rule: length_induct)
  case (1 buf)
  have nd: "\<not> ctx_done ctx (clock s)"
    using "1.prems"(1) ctx_done_mono [of ctx "clock s" "clock s + 3 * count_list buf (CHR 0x0A)"]
    by auto
  show ?case
  proof (cases "IndexByte buf (CHR 0x0A)")
    case None
    show ?thesis
    proof (cases "fin = EOF \<and> TrimSpace buf \<noteq> []")
      case True
      then have "sends_complete streamChan (Suc 0)"
        using "1.prems"(2) by (simp add: expected_lines_None [OF None])
      then obtain ch where "send streamChan = Some ch" using send_complete by blast
      then show ?thesis
        using True
        by (simp add: stream_loop_last [OF nd None] expected_lines_None [OF None]
            pushed_emit push_of_def)
    next
      case False
      then show ?thesis
        by (auto simp: stream_loop_last [OF nd None] expected_lines_None [OF None]
            pushed_emit push_of_def)
    qed
  next
    case (Some m)
    have sh: "length (drop (Suc m) buf) < length buf"
      using IndexByte_less [OF Some] by simp
    let ?s2 = "emit (Push (TrimSpace (take m buf))) (emit ReadCall (emit (CtxCheck False) s))"
    have "sends_complete streamChan (Suc (length (expected_lines fin (drop (Suc m) buf))))"
      using "1.prems"(2) by (simp add: expected_lines_Some [OF Some])
    then obtain ch where ch: "send streamChan = Some ch"
      and sc: "sends_complete ch (length (expected_lines fin (drop (Suc m) buf)))"
      using send_complete by blast
    have "clock ?s2 + 3 * count_list (drop (Suc m) buf) (CHR 0x0A) =
        clock s + 3 * count_list buf (CHR 0x0A)"
      by (simp add: clock_emit count_list_IndexByte_Some [OF Some])
    then have nd2: "\<not> ctx_done ctx (clock ?s2 + 3 * count_list (drop (Suc m) buf) (CHR 0x0A))"
      using "1.prems"(1) by simp
    from "1.IH" [rule_format, OF sh nd2 sc]
    show ?thesis
      by (simp add: stream_loop_step [OF nd Some] ch expected_lines_Some [OF Some]
          pushed_emit push_of_def)
  qed
qed

text \<open>The loop returns or is blocked in a send; it returns when the sink takes every line.\<close>

lemma stream_loop_outcome:
  "fst (stream_loop ctx streamChan fin buf s) \<noteq> Panicked \<and>
   (sends_complete streamChan (length (expected_lines fin buf)) \<longrightarrow>
      fst (stream_loop ctx streamChan fin buf s) = Returned)"
proof (induction buf arbitrary: s streamChan rule: length_induct)
  case (1 buf)
  show ?case
  proof (cases "ctx_done ctx (clock s)")
    case True
    then show ?thesis by (simp add: stream_loop_done)
  next
    case False
    show ?thesis
    proof (cases "IndexByte buf (CHR 0x0A)")
      case None
      show ?thesis
        using send_complete [of streamChan 0]
        by (auto simp: stream_loop_last [OF False None] expected_lines_None [OF None]
            split: option.splits)
    next
      case (Some m)
      have sh: "length (drop (Suc m) buf) < length buf"
        using IndexByte_less [OF Some] by simp
      show ?thesis
      proof (cases "send streamChan")
        case None
        then show ?thesis
          using send_complete [of streamChan "length (expected_lines fin (drop (Suc m) buf))"]
          by (auto simp: stream_loop_step [OF False Some] expected_lines_Some [OF Some])
      next
        case ch: (Some ch)
        let ?s2 = "emit (Push (TrimSpace (take m buf)))
                     (emit ReadCall (emit (CtxCheck False) s))"
        have sc: "sends_complete streamChan (Suc n) \<Longrightarrow> sends_complete ch n" for n
          using send_complete [of streamChan n] ch by auto
        from "1.IH" [rule_format, OF sh, of ch ?s2] sc
        show ?thesis
          by (auto simp: stream_loop_step [OF False Some] ch expected_lines_Some [OF Some])
      qed
    qed
  qed
qed



lemma stream_loop_opens: "opens (snd (stream_loop ctx streamChan fin buf s)) = opens s"
proof (induction buf arbitrary: s streamChan rule: length_induct)
  case (1 buf)
  show ?case
  proof (cases "ctx_done ctx (clock s)")
    case True
    then show ?thesis by (simp add: stream_loop_done opens_emit open_of_def)
  next
    case False
    show ?thesis
    proof (cases "IndexByte buf (CHR 0x0A)")
      case None
      show ?thesis
        by (simp add: stream_loop_last [OF False None] opens_emit open_of_def
            split: option.splits)
    next
      case (Some m)
      have sh: "length (drop (Suc m) buf) < length buf"
        using IndexByte_less [OF Some] by simp
      show ?thesis
        using "1.IH" [rule_format, OF sh]
        by (simp add: stream_loop_step [OF False Some] opens_emit open_of_def
            split: option.splits)
    qed
  qed
qed

text \<open>
  What the loop adds to the trace: every read and every push is guarded, and at most one
  push falls at an instant at which the context is done.
\<close>

lemma stream_loop_trace:
  "\<exists>evs. trace (snd (stream_loop ctx streamChan fin buf s)) = trace s @ evs
     \<and> (\<forall>te \<in> set evs. guarded ctx te)
     \<and> late_pushes ctx evs \<le> 1 \<and> (ctx_done ctx (clock s) \<longrightarrow> late_pushes ctx evs = 0)"
proof (induction buf arbitrary: s streamChan rule: length_induct)
  case (1 buf)
  show ?case
  proof (cases "ctx_done ctx (clock s)")
    case True
    then show ?thesis
      by (simp add: stream_loop_done trace_emit clock_emit guarded_def late_pushes_def
          push_of_def)
  next
    case False
    show ?thesis
    proof (cases "IndexByte buf (CHR 0x0A)")
      case None
      show ?thesis
        using False
        by (simp add: stream_loop_last [OF False None] trace_emit clock_emit guarded_def
            late_pushes_def push_of_def split: option.splits)
    next
      case (Some m)
      have sh: "length (drop (Suc m) buf) < length buf"
        using IndexByte_less [OF Some] by simp
      show ?thesis
      proof (cases "send streamChan")
        case None
        then show ?thesis
          using False
          by (simp add: stream_loop_step [OF False Some] trace_emit clock_emit guarded_def
              late_pushes_def push_of_def)
      next
        case ch: (Some ch)
        let ?l = "TrimSpace (take m buf)"
        let ?s2 = "emit (Push ?l) (emit ReadCall (emit (CtxCheck False) s))"
        have step: "stream_loop ctx streamChan fin buf s =
            stream_loop ctx ch fin (drop (Suc m) buf) ?s2"
          by (simp add: stream_loop_step [OF False Some] ch)
        from "1.IH" [rule_format, OF sh, of ch ?s2]
        obtain evs where
          e: "trace (snd (stream_loop ctx ch fin (drop (Suc m) buf) ?s2)) = trace ?s2 @ evs"
          and g: "\<forall>te \<in> set evs. guarded ctx te"
          and l1: "late_pushes ctx evs \<le> 1"
          and l0: "ctx_done ctx (clock ?s2) \<longrightarrow> late_pushes ctx evs = 0"
          by auto
        let ?new = "[(clock s, CtxCheck False), (Suc (clock s), ReadCall),
                     (Suc (Suc (clock s)), Push ?l)] @ evs"
        have t: "trace (snd (stream_loop ctx streamChan fin buf s)) = trace s @ ?new"
          by (simp add: step e trace_emit clock_emit)
        have g': "\<forall>te \<in> set ?new. guarded ctx te"
          using g False by (simp add: guarded_def)
        have c2: "clock ?s2 = Suc (Suc (Suc (clock s)))" by (simp add: clock_emit)
        have mono: "ctx_done ctx (Suc (Suc (clock s))) \<Longrightarrow> ctx_done ctx (clock ?s2)"
          by (auto simp: c2 ctx_done_def split: option.splits)
        have l': "late_pushes ctx ?new \<le> 1"
          using l1 l0 mono False
          by (auto simp: late_pushes_def push_of_def ctx_done_def split: option.splits)
        show ?thesis using t g' l' False by blast
      qed
    qed
  qed
qed

section \<open>Line delivery\<close>

text \<open>
  Claim C1. When the log stream was opened, the lines \<open>containerLogStream\<close> pushes are
  the lines of the input in input order, none coalesced, skipped or moved: one push for
  each newline-terminated line, the line trimmed of surrounding white space (a line of
  white space only is pushed as the empty string), and, when the input ends with
  \<open>io.EOF\<close>, the final partial line once if it is not empty after trimming. Whatever the
  context and the sink do, what was pushed is a prefix of these lines. When the context
  is not done at the \<open>select\<close> of the last iteration and the sink takes every line, the
  call returns and all of them were pushed; the context may be done at any later instant.
  Trimming is \<open>TrimSpace\<close>, and \<open>TrimSpace\<close> removes the white space around a line and
  nothing else: the line is its trimmed form between two runs of white space code points,
  and the trimmed form neither begins nor ends with one. The input \<open>"l1\nl2\nl3"\<close>
  gives \<open>["l1","l2","l3"]\<close>.
\<close>

theorem containerLogStream_lines:
  assumes "GetContainerLogStream w namespace podName containerName follow tailLines cl = Inr out"
  shows "(\<exists>k. pushed (snd (containerLogStream w ctx streamChan namespace podName containerName
                  follow tailLines cl s)) =
            pushed s @ take k (expected_lines (ending out) (content out))) \<and>
         (\<not> ctx_done ctx (clock s + 2 + 3 * count_list (content out) (CHR 0x0A)) \<and>
          sends_complete streamChan (length (expected_lines (ending out) (content out))) \<longrightarrow>
            fst (containerLogStream w ctx streamChan namespace podName containerName
                   follow tailLines cl s) = Returned \<and>
            pushed (snd (containerLogStream w ctx streamChan namespace podName containerName
                   follow tailLines cl s)) =
              pushed s @ map TrimSpace (butlast (Split (content out) (CHR 0x0A)))
                @ (if ending out = EOF
                   then final_line (last (Split (content out) (CHR 0x0A))) else [])) \<and>
         (\<forall>l. trimmed_of l (TrimSpace l))"
proof -
  let ?s2 = "emit (OpenCall namespace podName containerName follow tailLines cl)
               (emit (LogMsg Info ''[GetContainerLogsSSE] Get container log of pod %s'') s)"
  define lines where "lines = expected_lines (ending out) (content out)"
  define looped where "looped = stream_loop ctx streamChan (ending out) (content out) ?s2"
  define run where "run = containerLogStream w ctx streamChan namespace podName containerName
      follow tailLines cl s"
  have a: "pushed ?s2 = pushed s" by (simp add: pushed_emit push_of_def)
  have c: "clock ?s2 = clock s + 2" by (simp add: clock_emit)
  have p: "pushed (snd run) = pushed (snd looped)"
    using assms
    by (simp add: run_def looped_def containerLogStream_def Let_def pushed_emit push_of_def
        split: option.splits)
  have r: "fst looped = Returned \<Longrightarrow> fst run = Returned"
    using assms
    by (simp add: run_def looped_def containerLogStream_def Let_def split: option.splits)
  obtain k where k: "pushed (snd looped) = pushed ?s2 @ take k lines"
    unfolding looped_def lines_def using stream_loop_prefix by blast
  have one: "\<exists>k. pushed (snd run) = pushed s @ take k lines"
    using p k a by auto
  have two: "fst run = Returned \<and> pushed (snd run) = pushed s @ lines"
    if "\<not> ctx_done ctx (clock s + 2 + 3 * count_list (content out) (CHR 0x0A))"
      and "sends_complete streamChan (length lines)"
  proof -
    have "\<not> ctx_done ctx (clock ?s2 + 3 * count_list (content out) (CHR 0x0A))"
      using that(1) by (simp add: c)
    moreover have "sends_complete streamChan
        (length (expected_lines (ending out) (content out)))"
      using that(2) by (simp only: lines_def)
    ultimately have "fst looped = Returned \<and> pushed (snd looped) = pushed ?s2 @ lines"
      unfolding looped_def lines_def by (rule stream_loop_complete)
    then show ?thesis using r p a by simp
  qed
  have three: "\<forall>l. trimmed_of l (TrimSpace l)" by (simp add: TrimSpace_trimmed)
  have l: "lines = map TrimSpace (butlast (Split (content out) (CHR 0x0A)))
      @ (if ending out = EOF then final_line (last (Split (content out) (CHR 0x0A))) else [])"
    by (simp add: lines_def expected_lines_def)
  show ?thesis
    using one two three unfolding run_def [symmetric] lines_def [symmetric] l [symmetric]
    by blast
qed

lemma Split_example:
  "Split ''l1\<newline>l2\<newline>l3'' (CHR 0x0A) = [''l1'', ''l2'', ''l3'']"
  by (simp add: Split.simps)

lemma Split_spaced:
  "Split (content spaced_stream) (CHR 0x0A) =
     ''  l1 '' # ([CHR 0x09] @ ''l2'' @ [CHR 0x0D]) #
     ([CHR 0xE3, CHR 0x80, CHR 0x80] @ ''l3'' @ [CHR 0xC2, CHR 0xA0]) # []"
  by (simp add: spaced_stream_def Split.simps)

lemma TrimSpace_spaced:
  "TrimSpace ''  l1 '' = ''l1''"
  "TrimSpace ([CHR 0x09] @ ''l2'' @ [CHR 0x0D]) = ''l2''"
  "TrimSpace ([CHR 0xE3, CHR 0x80, CHR 0x80] @ ''l3'' @ [CHR 0xC2, CHR 0xA0]) = ''l3''"
  by (simp_all add: TrimSpace_eval)

text \<open>
  The input of the claim, with a context that is done long after the stream has ended and
  a sink with room for three lines; and an input with white space around each line.
\<close>

theorem containerLogStream_lines_witness:
  "fst (containerLogStream (example_world example_stream NeverRunning)
      \<lparr>done_at = Some 1000\<rparr> \<lparr>room = Some 3\<rparr> ''ns'' ''pod-1'' ''build'' True 100 ''clientset''
      \<lparr>clock = 0, trace = []\<rparr>) = Returned \<and>
   pushed (snd (containerLogStream (example_world example_stream NeverRunning)
      \<lparr>done_at = Some 1000\<rparr> \<lparr>room = Some 3\<rparr> ''ns'' ''pod-1'' ''build'' True 100 ''clientset''
      \<lparr>clock = 0, trace = []\<rparr>))
     = [''l1'', ''l2'', ''l3''] \<and>
   pushed (snd (containerLogStream (example_world spaced_stream NeverRunning)
      \<lparr>done_at = None\<rparr> \<lparr>room = None\<rparr> ''ns'' ''pod-1'' ''build'' True 100 ''clientset''
      \<lparr>clock = 0, trace = []\<rparr>))
     = [''l1'', ''l2'', ''l3''] \<and>
   trimmed_of ''  l1 '' ''l1''"
proof -
  have c1: "count_list ''l1\<newline>l2\<newline>l3'' (CHR 0x0A) = 2" by simp
  have e1: "expected_lines EOF ''l1\<newline>l2\<newline>l3'' = [''l1'', ''l2'', ''l3'']"
    by (simp add: expected_lines_def Split_example final_line_def TrimSpace_examples)
  have e2: "expected_lines EOF (content spaced_stream) = [''l1'', ''l2'', ''l3'']"
    using TrimSpace_spaced by (simp add: expected_lines_def Split_spaced final_line_def)
  have x1: "map TrimSpace (butlast (Split ''l1\<newline>l2\<newline>l3'' (CHR 0x0A)))
      @ final_line (last (Split ''l1\<newline>l2\<newline>l3'' (CHR 0x0A))) = [''l1'', ''l2'', ''l3'']"
    using e1 by (simp add: expected_lines_def)
  have x2: "map TrimSpace (butlast (Split (content spaced_stream) (CHR 0x0A)))
      @ final_line (last (Split (content spaced_stream) (CHR 0x0A))) = [''l1'', ''l2'', ''l3'']"
    using e2 by (simp add: expected_lines_def spaced_stream_def)
  have d: "\<not> ctx_done \<lparr>done_at = Some 1000\<rparr> 8" "\<not> ctx_done \<lparr>done_at = None\<rparr> t" for t
    by (simp_all add: ctx_done_def)
  have p0: "pushed \<lparr>clock = 0, trace = []\<rparr> = []" by (simp add: pushed_def)
  have en: "ending spaced_stream = EOF" by (simp add: spaced_stream_def)
  have t: "TrimSpace ''  l1 '' = ''l1''" by (rule TrimSpace_spaced)
  have a: "fst (containerLogStream (example_world example_stream NeverRunning)
      \<lparr>done_at = Some 1000\<rparr> \<lparr>room = Some 3\<rparr> ''ns'' ''pod-1'' ''build'' True 100 ''clientset''
      \<lparr>clock = 0, trace = []\<rparr>) = Returned \<and>
   pushed (snd (containerLogStream (example_world example_stream NeverRunning)
      \<lparr>done_at = Some 1000\<rparr> \<lparr>room = Some 3\<rparr> ''ns'' ''pod-1'' ''build'' True 100 ''clientset''
      \<lparr>clock = 0, trace = []\<rparr>))
     = [''l1'', ''l2'', ''l3'']"
    using containerLogStream_lines [where w = "example_world example_stream NeverRunning"
        and namespace = "''ns''" and podName = "''pod-1''" and containerName = "''build''"
        and follow = True and tailLines = 100 and cl = "''clientset''"
        and out = example_stream and ctx = "\<lparr>done_at = Some 1000\<rparr>"
        and streamChan = "\<lparr>room = Some 3\<rparr>" and s = "\<lparr>clock = 0, trace = []\<rparr>"]
    by (simp add: example_world_def example_stream_def c1 e1 x1 d p0 sends_complete_def)
  have b: "pushed (snd (containerLogStream (example_world spaced_stream NeverRunning)
      \<lparr>done_at = None\<rparr> \<lparr>room = None\<rparr> ''ns'' ''pod-1'' ''build'' True 100 ''clientset''
      \<lparr>clock = 0, trace = []\<rparr>))
     = [''l1'', ''l2'', ''l3''] \<and> trimmed_of ''  l1 '' (TrimSpace ''  l1 '')"
    using containerLogStream_lines [where w = "example_world spaced_stream NeverRunning"
        and namespace = "''ns''" and podName = "''pod-1''" and containerName = "''build''"
        and follow = True and tailLines = 100 and cl = "''clientset''"
        and out = spaced_stream and ctx = "\<lparr>done_at = None\<rparr>"
        and streamChan = "\<lparr>room = None\<rparr>" and s = "\<lparr>clock = 0, trace = []\<rparr>"]
    by (simp add: example_world_def en x2 d p0 sends_complete_def)
  show ?thesis using a b t by simp
qed

section \<open>Cancellation\<close>

text \<open>
  Claim C2, as stated, says that no line is pushed once the context is done. The
  \<open>select\<close> looks at the context only at the start of an iteration: with the input
  \<open>"a\n"\<close> and a context that becomes done at instant 2, after the read has returned, the
  line \<open>"a"\<close> is pushed at instant 2, when the context is done.
\<close>

theorem stream_loop_late_push_counterexample:
  "(2, Push ''a'') \<in> set (new_events \<lparr>clock = 0, trace = []\<rparr>
       (snd (stream_loop \<lparr>done_at = Some 2\<rparr> \<lparr>room = None\<rparr> EOF ''a\<newline>''
          \<lparr>clock = 0, trace = []\<rparr>))) \<and>
   ctx_done \<lparr>done_at = Some 2\<rparr> 2"
  by (simp add: stream_loop.simps new_events_def ctx_done_def ReadString_def emit_def
      push_def send_def TrimSpace_eval)

text \<open>
  Claim C2, amended. When the context is done at the \<open>select\<close> of an iteration, the loop
  stops there: it logs and returns, with no further read and no further push (the done
  case wins over the read). Every read follows a \<open>select\<close> that found the context not
  done, and every push follows such a read; so at most one line is pushed at an instant at
  which the context is already done, the line whose read was under way. This holds for
  every sink, whether its sends complete or block.
\<close>

theorem stream_loop_context:
  "(ctx_done ctx (clock s) \<longrightarrow>
      new_events s (snd (stream_loop ctx streamChan fin buf s)) =
        [(clock s, CtxCheck True),
         (Suc (clock s), LogMsg Info ''Connection is closed, container log stream stopped'')]) \<and>
   (\<forall>te \<in> set (new_events s (snd (stream_loop ctx streamChan fin buf s))). guarded ctx te) \<and>
   late_pushes ctx (new_events s (snd (stream_loop ctx streamChan fin buf s))) \<le> 1"
proof -
  obtain evs where e: "trace (snd (stream_loop ctx streamChan fin buf s)) = trace s @ evs"
    and g: "\<forall>te \<in> set evs. guarded ctx te" and l: "late_pushes ctx evs \<le> 1"
    using stream_loop_trace by blast
  have n: "new_events s (snd (stream_loop ctx streamChan fin buf s)) = evs"
    by (simp add: new_events_def e)
  have d: "ctx_done ctx (clock s) \<longrightarrow>
      new_events s (snd (stream_loop ctx streamChan fin buf s)) =
        [(clock s, CtxCheck True),
         (Suc (clock s), LogMsg Info ''Connection is closed, container log stream stopped'')]"
    by (simp add: new_events_def stream_loop_done trace_emit clock_emit)
  show ?thesis
    using g l d by (simp add: n)
qed

theorem stream_loop_context_witness:
  "new_events \<lparr>clock = 0, trace = []\<rparr>
      (snd (stream_loop \<lparr>done_at = Some 0\<rparr> \<lparr>room = None\<rparr> EOF ''a\<newline>''
         \<lparr>clock = 0, trace = []\<rparr>)) =
     [(0, CtxCheck True),
      (1, LogMsg Info ''Connection is closed, container log stream stopped'')] \<and>
   guarded \<lparr>done_at = Some 2\<rparr> (2, Push ''a'') \<and>
   late_pushes \<lparr>done_at = Some 2\<rparr> (new_events \<lparr>clock = 0, trace = []\<rparr>
      (snd (stream_loop \<lparr>done_at = Some 2\<rparr> \<lparr>room = None\<rparr> EOF ''a\<newline>''
         \<lparr>clock = 0, trace = []\<rparr>))) \<le> 1"
proof -
  have m: "(2, Push ''a'') \<in> set (new_events \<lparr>clock = 0, trace = []\<rparr>
       (snd (stream_loop \<lparr>done_at = Some 2\<rparr> \<lparr>room = None\<rparr> EOF ''a\<newline>''
          \<lparr>clock = 0, trace = []\<rparr>)))"
    by (simp add: stream_loop.simps new_events_def ctx_done_def ReadString_def emit_def
        push_def send_def TrimSpace_eval)
  have d: "ctx_done \<lparr>done_at = Some 0\<rparr> (clock \<lparr>clock = 0, trace = []\<rparr>)"
    by (simp add: ctx_done_def)
  show ?thesis
    using stream_loop_context [of "\<lparr>done_at = Some 0\<rparr>" "\<lparr>clock = 0, trace = []\<rparr>"
        "\<lparr>room = None\<rparr>" EOF "''a\<newline>''"]
      stream_loop_context [of "\<lparr>done_at = Some 2\<rparr>" "\<lparr>clock = 0, trace = []\<rparr>"
        "\<lparr>room = None\<rparr>" EOF "''a\<newline>''"]
      m d
    by auto
qed

section \<open>Release of the read handle\<close>




section \<open>The pod wait\<close>

lemma containerLogStream_opens:
  "opens (snd (containerLogStream w ctx streamChan namespace podName containerName follow
       tailLines cl s)) =
     opens s @ [(namespace, podName, containerName, follow, tailLines, cl)]"
  by (simp add: containerLogStream_def Let_def opens_emit open_of_def stream_loop_opens
      split: sum.splits option.splits)

lemma timeout_ge: "3 \<le> timeout"
  by (simp add: timeout_def Minute_def)

text \<open>
  Claim C4. When no pod matching the selector ever runs, \<open>waitAndGetLog\<close> returns,
  having opened no log stream and pushed no line. It returns no later than one step after
  the deadline of five minutes from its start, and, when the caller's context is done
  before that, no later than one step after that instant or after the three steps that
  come before the wait. The wait itself is the one the spec describes.
\<close>

theorem waitAndGetLog_pod_never_running:
  assumes "\<forall>cl. pod_running w (Namespace options) selector cl = NeverRunning"
  shows "\<exists>s'. waitAndGetLog w ctx streamChan selector options s = (Returned, s') \<and>
           opens s' = opens s \<and> pushed s' = pushed s \<and>
           clock s' \<le> clock s + timeout + 1 \<and>
           (\<forall>d. done_at ctx = Some d \<longrightarrow> clock s' \<le> max d (clock s + 3) + 1)"
proof (cases "GetClientset w (HubServerAddress (cfg w)) (ClusterID options)")
  case (Inl err)
  then show ?thesis
    using timeout_ge
    by (auto simp: waitAndGetLog_def Let_def opens_emit open_of_def pushed_emit push_of_def
        clock_emit)
next
  case (Inr clientSet)
  have n: "pod_running w (Namespace options) selector clientSet = NeverRunning"
    using assms by simp
  show ?thesis
    using timeout_ge
    by (auto simp: waitAndGetLog_def Let_def Inr n WaitUntilPodRunning_def WithTimeout_def
        opens_emit open_of_def pushed_emit push_of_def clock_emit emit_clock
        split: option.splits)
qed

theorem waitAndGetLog_pod_never_running_witness:
  "\<exists>s'. waitAndGetLog (example_world example_stream NeverRunning) \<lparr>done_at = None\<rparr>
      \<lparr>room = None\<rparr> (JobLabels ''wf1'' 7 ''build-job'' ''mod_svc'' '''') example_options
      \<lparr>clock = 0, trace = []\<rparr> = (Returned, s') \<and>
     opens s' = [] \<and> pushed s' = [] \<and> clock s' \<le> timeout + 1"
  using waitAndGetLog_pod_never_running [where w = "example_world example_stream NeverRunning"
      and options = example_options
      and selector = "JobLabels ''wf1'' 7 ''build-job'' ''mod_svc'' ''''"
      and ctx = "\<lparr>done_at = None\<rparr>" and streamChan = "\<lparr>room = None\<rparr>"
      and s = "\<lparr>clock = 0, trace = []\<rparr>"]
  by (simp add: example_world_def opens_init pushed_def)

section \<open>The entry points: what they open and what they assign\<close>

lemma waitAndGetLog_opens:
  "opens (snd (waitAndGetLog w ctx streamChan selector options s)) = opens s \<or>
   (\<exists>pod cl. opens (snd (waitAndGetLog w ctx streamChan selector options s)) =
      opens s @ [(Namespace options, pod, SubTask options, True, TailLines options, cl)])"
  by (simp add: waitAndGetLog_def Let_def opens_emit open_of_def containerLogStream_opens
      split: sum.splits wait_result.splits)

lemma containerLogStream_not_panicked:
  "fst (containerLogStream w ctx streamChan namespace podName containerName follow tailLines
          cl s) \<noteq> Panicked"
  using stream_loop_outcome [where ctx = ctx and streamChan = streamChan]
  by (simp add: containerLogStream_def Let_def split: sum.splits option.splits)

lemma waitAndGetLog_not_panicked:
  "fst (waitAndGetLog w ctx streamChan selector options s) \<noteq> Panicked"
  by (simp add: waitAndGetLog_def Let_def containerLogStream_not_panicked
      split: sum.splits wait_result.splits)

lemma with_options_open:
  "opens s1 = opens s \<Longrightarrow>
   \<exists>r s'. with_options options (waitAndGetLog w ctx streamChan selector options s1)
            = (r, Some options, s')
     \<and> one_follow_open s options s'"
  using waitAndGetLog_opens [where w = w and ctx = ctx and streamChan = streamChan
      and selector = selector and options = options and s = s1]
  by (auto simp: with_options_def one_follow_open_def)

lemma Task_findBuild_effects:
  "(case Task_findBuild w p n m s of
      Return s' \<Rightarrow> opens s' = opens s
    | Continue (b, s') \<Rightarrow> opens s' = opens s)"
  by (simp add: Task_findBuild_def Let_def opens_emit open_of_def split: sum.splits)

lemma Task_findBuild_opens:
  "Task_findBuild w p n m s = Return s' \<Longrightarrow> opens s' = opens s"
  "Task_findBuild w p n m s = Continue (b, s') \<Longrightarrow> opens s' = opens s"
  using Task_findBuild_effects [where w = w and p = p and n = n and m = m and s = s]
  by simp_all

lemma Task_jobContext_rule:
  "(case Task_jobContext w options s of
      Return (o', s') \<Rightarrow> follows_rule (cfg w) options o'
    | Continue (o', s') \<Rightarrow> follows_rule (cfg w) options o')"
  by (auto simp: Task_jobContext_def Let_def follows_rule_def namespaceOf_def
      split: sum.splits flow.splits prod.splits)

lemma Task_jobContext_env:
  "EnvName options \<noteq> '''' \<and> ProductName options \<noteq> '''' \<and> PipelineName options = '''' \<Longrightarrow>
   (case Task_jobContext w options s of
      Return (o', s') \<Rightarrow> Namespace o' = Namespace options \<and> ClusterID o' = ClusterID options
    | Continue (o', s') \<Rightarrow> Namespace o' = Namespace options \<and> ClusterID o' = ClusterID options)"
  by (simp add: Task_jobContext_def Let_def split: sum.splits)

lemma Task_jobContext_opens:
  "(case Task_jobContext w options s of
      Return (o', s') \<Rightarrow> opens s' = opens s
    | Continue (o', s') \<Rightarrow> opens s' = opens s)"
  by (auto simp: Task_jobContext_def Let_def opens_emit open_of_def
      split: sum.splits flow.splits prod.splits dest: Task_findBuild_opens)

lemma Task_jobContext_build:
  assumes "EnvName options = '''' \<or> PipelineName options \<noteq> ''''"
    and "ProductName options \<noteq> ''''"
    and "Task_findBuild w (ProductName options)
           (fst (parseServiceName (ServiceName options) (ServiceModule options)))
           (snd (parseServiceName (ServiceName options) (ServiceModule options))) s
         = Continue (Some b, s')"
    and "PreBuild b = Some c" and "c \<noteq> ''''"
  shows "Task_jobContext w options s =
           Continue (options\<lparr>ClusterID := c, Namespace := namespaceOf (cfg w) c\<rparr>, s')"
  using assms by (auto simp: Task_jobContext_def Let_def namespaceOf_def)

lemma TestJob_jobContext_rule: "follows_rule (cfg w) options (TestJob_jobContext w options)"
  by (simp add: TestJob_jobContext_def Let_def follows_rule_def namespaceOf_def)

lemma TestJob_jobContext_test:
  "fst (TestingFind w (getTestName (ServiceName options)) '''') = Some t \<Longrightarrow>
   PreTest t = Some c \<Longrightarrow> c \<noteq> '''' \<Longrightarrow>
   TestJob_jobContext w options = options\<lparr>ClusterID := c, Namespace := namespaceOf (cfg w) c\<rparr>"
  by (simp add: TestJob_jobContext_def Let_def namespaceOf_def)

lemma Workflow_job_assign:
  "Workflow_jobClusterID w job = Inr c \<Longrightarrow>
   Workflow_job w job options s =
     Continue (options\<lparr>JobName := job_K8sJobName job, JobType := job_JobType job,
                 ClusterID := (if c = '''' then LocalClusterID (cfg w) else c),
                 Namespace := namespaceOf (cfg w)
                   (if c = '''' then LocalClusterID (cfg w) else c)\<rparr>, s)"
  by (simp add: Workflow_job_def Let_def namespaceOf_def)

lemma Workflow_job_rule:
  "(case Workflow_job w job options s of
      Return (o', s') \<Rightarrow>
        follows_rule (cfg w) options o' \<and> opens s' = opens s \<and> SubTask o' = SubTask options
    | Continue (o', s') \<Rightarrow>
        follows_rule (cfg w) options o' \<and> opens s' = opens s \<and> SubTask o' = SubTask options)"
  by (simp add: Workflow_job_def Let_def follows_rule_def namespaceOf_def opens_emit open_of_def
      split: sum.splits)

lemma scan_jobs_rule:
  "(case scan_jobs w jobs options s of
      Return (o', s') \<Rightarrow>
        follows_rule (cfg w) options o' \<and> opens s' = opens s \<and> SubTask o' = SubTask options
    | Continue (o', s') \<Rightarrow>
        follows_rule (cfg w) options o' \<and> opens s' = opens s \<and> SubTask o' = SubTask options)"
proof (induction jobs)
  case Nil
  then show ?case by (simp add: follows_rule_def)
next
  case (Cons job jobs)
  then show ?case
    using Workflow_job_rule [where w = w and job = job and options = options and s = s]
    by simp
qed

lemma follows_rule_trans:
  "follows_rule c a b \<Longrightarrow> follows_rule c b d \<Longrightarrow> follows_rule c a d"
  by (auto simp: follows_rule_def)

lemma scan_stages_rule:
  "(case scan_stages w stages options s of
      Return (o', s') \<Rightarrow> follows_rule (cfg w) options o' \<and> opens s' = opens s
    | Continue (o', s') \<Rightarrow> follows_rule (cfg w) options o' \<and> opens s' = opens s)"
proof (induction stages arbitrary: options s)
  case Nil
  then show ?case by (simp add: follows_rule_def)
next
  case (Cons stage stages)
  show ?case
  proof (cases "scan_jobs w (Jobs stage) options s")
    case (Return x)
    then show ?thesis
      using scan_jobs_rule [where w = w and jobs = "Jobs stage" and options = options
          and s = s]
      by (cases x) simp
  next
    case (Continue x)
    obtain o1 s1 where x: "x = (o1, s1)" by (cases x)
    have a: "follows_rule (cfg w) options o1" and b: "opens s1 = opens s"
      using scan_jobs_rule [where w = w and jobs = "Jobs stage" and options = options
          and s = s] Continue x
      by simp_all
    show ?thesis
      using Cons.IH [where options = o1 and s = s1] a b Continue x
      by (auto split: flow.splits intro: follows_rule_trans)
  qed
qed

text \<open>What a call of each entry point with a request leaves behind.\<close>

lemma Task_entry:
  "\<exists>r o' s'. TaskContainerLogStream w ctx streamChan (Some options) s = (r, Some o', s') \<and>
     follows_rule (cfg w) options o' \<and>
     (EnvName options \<noteq> '''' \<and> ProductName options \<noteq> '''' \<and> PipelineName options = '''' \<longrightarrow>
        Namespace o' = Namespace options \<and> ClusterID o' = ClusterID options) \<and>
     one_follow_open s o' s'"
proof -
  let ?s1 = "emit (LogMsg Debug ''Start to get task container log.'') s"
  have o1: "opens ?s1 = opens s" by (simp add: opens_emit open_of_def)
  show ?thesis
  proof (cases "Task_jobContext w options ?s1")
    case (Return x)
    obtain o1 s1 where x: "x = (o1, s1)" by (cases x)
    have "follows_rule (cfg w) options o1"
      using Task_jobContext_rule [where w = w and options = options and s = ?s1] Return x
      by simp
    moreover have "opens s1 = opens s"
      using Task_jobContext_opens [where w = w and options = options and s = ?s1] Return x o1
      by simp
    moreover have "EnvName options \<noteq> '''' \<and> ProductName options \<noteq> ''''
        \<and> PipelineName options = ''''
        \<longrightarrow> Namespace o1 = Namespace options \<and> ClusterID o1 = ClusterID options"
      using Task_jobContext_env [where w = w and options = options and s = ?s1] Return x
      by simp
    ultimately show ?thesis
      using Return x by (simp add: TaskContainerLogStream_def one_follow_open_def)
  next
    case (Continue x)
    obtain o1 s1 where x: "x = (o1, s1)" by (cases x)
    define o2 where "o2 = (if SubTask o1 = '''' then o1\<lparr>SubTask := TaskBuild (cfg w)\<rparr> else o1)"
    define sel where "sel = JobLabels (PipelineName o2) (TaskID o2) (SubTask o2)
                  (ServiceName o2) (PipelineType o2)"
    have f: "follows_rule (cfg w) options o1"
      using Task_jobContext_rule [where w = w and options = options and s = ?s1] Continue x
      by simp
    then have f2: "follows_rule (cfg w) options o2" by (simp add: follows_rule_def o2_def)
    have op: "opens s1 = opens s"
      using Task_jobContext_opens [where w = w and options = options and s = ?s1] Continue x o1
      by simp
    have e: "EnvName options \<noteq> '''' \<and> ProductName options \<noteq> ''''
        \<and> PipelineName options = ''''
        \<longrightarrow> Namespace o2 = Namespace options \<and> ClusterID o2 = ClusterID options"
      using Task_jobContext_env [where w = w and options = options and s = ?s1] Continue x
      by (simp add: o2_def)
    have t: "TaskContainerLogStream w ctx streamChan (Some options) s =
        with_options o2 (waitAndGetLog w ctx streamChan sel o2 s1)"
      using Continue x by (simp add: TaskContainerLogStream_def Let_def o2_def sel_def)
    obtain r s' where
      w: "with_options o2 (waitAndGetLog w ctx streamChan sel o2 s1) = (r, Some o2, s')"
      and oo: "one_follow_open s o2 s'"
      using with_options_open [OF op] by blast
    have "TaskContainerLogStream w ctx streamChan (Some options) s = (r, Some o2, s') \<and>
        follows_rule (cfg w) options o2 \<and>
        (EnvName options \<noteq> '''' \<and> ProductName options \<noteq> '''' \<and> PipelineName options = ''''
           \<longrightarrow> Namespace o2 = Namespace options \<and> ClusterID o2 = ClusterID options) \<and>
        one_follow_open s o2 s'"
      using t w oo f2 e by simp
    then show ?thesis by (intro exI)
  qed
qed

lemma Workflow_entry:
  "\<exists>r o' s'. WorkflowTaskV4ContainerLogStream w ctx streamChan (Some options) s
       = (r, Some o', s') \<and>
     follows_rule (cfg w) options o' \<and> one_follow_open s o' s'"
proof -
  let ?s2 = "emit (WorkflowFindCall (PipelineName options) (TaskID options))
               (emit (LogMsg Debug ''Start to get task container log.'') s)"
  have o2: "opens ?s2 = opens s" by (simp add: opens_emit open_of_def)
  show ?thesis
  proof (cases "WorkflowTaskFind w (PipelineName options) (TaskID options)")
    case (Inl err)
    then show ?thesis
      by (simp add: WorkflowTaskV4ContainerLogStream_def Let_def follows_rule_def
          one_follow_open_def opens_emit open_of_def)
  next
    case (Inr task)
    show ?thesis
    proof (cases "scan_stages w (Stages task) options ?s2")
      case (Return x)
      obtain o1 s1 where x: "x = (o1, s1)" by (cases x)
      have "follows_rule (cfg w) options o1 \<and> opens s1 = opens ?s2"
        using scan_stages_rule [where w = w and stages = "Stages task" and options = options
            and s = ?s2] Return x
        by simp
      then show ?thesis
        using Inr Return x o2
        by (simp add: WorkflowTaskV4ContainerLogStream_def Let_def one_follow_open_def)
    next
      case (Continue x)
      obtain o1 s1 where x: "x = (o1, s1)" by (cases x)
      have f: "follows_rule (cfg w) options o1" and op: "opens s1 = opens s"
        using scan_stages_rule [where w = w and stages = "Stages task" and options = options
            and s = ?s2] Continue x o2
        by simp_all
      have t: "WorkflowTaskV4ContainerLogStream w ctx streamChan (Some options) s =
          with_options o1
            (waitAndGetLog w ctx streamChan (getWorkflowSelector (cfg w) o1) o1 s1)"
        using Inr Continue x by (simp add: WorkflowTaskV4ContainerLogStream_def Let_def)
      show ?thesis
        using t with_options_open [OF op] f by metis
    qed
  qed
qed

lemma TestJob_entry:
  "\<exists>r o' s'. TestJobContainerLogStream w ctx streamChan (Some options) s = (r, Some o', s') \<and>
     follows_rule (cfg w) options o' \<and> one_follow_open s o' s'"
proof -
  let ?o1 = "options\<lparr>SubTask := TaskTestingV2 (cfg w)\<rparr>"
  let ?s1 = "emit (TestingFindCall (getTestName (ServiceName ?o1)) '''') s"
  let ?o2 = "TestJob_jobContext w ?o1"
  let ?sel = "JobLabels (PipelineName ?o1) (TaskID ?o1) (SubTask ?o1) (ServiceName ?o1)
                (PipelineType ?o1)"
  have op: "opens ?s1 = opens s" by (simp add: opens_emit open_of_def)
  have "follows_rule (cfg w) ?o1 ?o2" by (rule TestJob_jobContext_rule)
  then have f: "follows_rule (cfg w) options ?o2" by (simp add: follows_rule_def)
  have t: "TestJobContainerLogStream w ctx streamChan (Some options) s =
      with_options ?o2 (waitAndGetLog w ctx streamChan ?sel ?o2 ?s1)"
    by (simp add: TestJobContainerLogStream_def Let_def)
  show ?thesis
    using t with_options_open [OF op] f by metis
qed

text \<open>Where each variant assigns, at the entry point: the task entry point and its build.\<close>

lemma Task_findBuild_found:
  assumes "build_found w options build"
  shows "\<exists>s'. Task_findBuild w (ProductName options)
           (fst (parseServiceName (ServiceName options) (ServiceModule options)))
           (snd (parseServiceName (ServiceName options) (ServiceModule options))) s
         = Continue (build, s')"
  using assms
  by (auto simp: build_found_def Task_findBuild_def Let_def split: sum.splits)

lemma Task_entry_build:
  assumes "EnvName options = '''' \<or> PipelineName options \<noteq> ''''"
    and "ProductName options \<noteq> ''''"
    and "build_found w options (Some b)" and "PreBuild b = Some c" and "c \<noteq> ''''"
  shows "\<exists>r o' s'. TaskContainerLogStream w ctx streamChan (Some options) s = (r, Some o', s')
           \<and> ClusterID o' = c \<and> Namespace o' = namespaceOf (cfg w) c"
proof -
  let ?s1 = "emit (LogMsg Debug ''Start to get task container log.'') s"
  define o1 where "o1 = options\<lparr>ClusterID := c, Namespace := namespaceOf (cfg w) c\<rparr>"
  define o2 where "o2 = (if SubTask o1 = '''' then o1\<lparr>SubTask := TaskBuild (cfg w)\<rparr> else o1)"
  define sel where "sel = JobLabels (PipelineName o2) (TaskID o2) (SubTask o2)
                (ServiceName o2) (PipelineType o2)"
  obtain s' where "Task_findBuild w (ProductName options)
           (fst (parseServiceName (ServiceName options) (ServiceModule options)))
           (snd (parseServiceName (ServiceName options) (ServiceModule options))) ?s1
         = Continue (Some b, s')"
    using Task_findBuild_found [OF assms(3)] by blast
  then have jc: "Task_jobContext w options ?s1 = Continue (o1, s')"
    using Task_jobContext_build [where w = w and options = options and s = ?s1 and b = b
        and s' = s' and c = c] assms(1,2,4,5)
    by (simp add: o1_def)
  have t: "TaskContainerLogStream w ctx streamChan (Some options) s =
      with_options o2 (waitAndGetLog w ctx streamChan sel o2 s')"
    using jc by (simp add: TaskContainerLogStream_def Let_def o2_def sel_def)
  have f: "ClusterID o2 = c \<and> Namespace o2 = namespaceOf (cfg w) c"
    by (simp add: o2_def o1_def)
  have "TaskContainerLogStream w ctx streamChan (Some options) s =
      (fst (waitAndGetLog w ctx streamChan sel o2 s'), Some o2,
       snd (waitAndGetLog w ctx streamChan sel o2 s')) \<and>
      ClusterID o2 = c \<and> Namespace o2 = namespaceOf (cfg w) c"
    using t f by (simp add: with_options_def)
  then show ?thesis by (intro exI)
qed

text \<open>The test-job entry point and its test.\<close>

lemma TestJob_entry_test:
  assumes "fst (TestingFind w (getTestName (ServiceName options)) '''') = Some t"
    and "PreTest t = Some c" and "c \<noteq> ''''"
  shows "\<exists>r o' s'. TestJobContainerLogStream w ctx streamChan (Some options) s = (r, Some o', s')
           \<and> ClusterID o' = c \<and> Namespace o' = namespaceOf (cfg w) c"
proof -
  let ?o1 = "options\<lparr>SubTask := TaskTestingV2 (cfg w)\<rparr>"
  define o2 where "o2 = TestJob_jobContext w ?o1"
  have "fst (TestingFind w (getTestName (ServiceName ?o1)) '''') = Some t"
    using assms(1) by simp
  from TestJob_jobContext_test [OF this assms(2,3)]
  have f: "ClusterID o2 = c \<and> Namespace o2 = namespaceOf (cfg w) c"
    by (simp add: o2_def)
  have "\<exists>r s'. TestJobContainerLogStream w ctx streamChan (Some options) s = (r, Some o2, s')"
    by (simp add: TestJobContainerLogStream_def Let_def with_options_def o2_def)
  then show ?thesis using f by blast
qed

text \<open>
  The workflow entry point. The switch on the job type gives the cluster id the job
  declares; the inner loop stops at the first job of the stage that the request names;
  the outer loop goes through every stage, so the last stage with such a job decides.
\<close>

lemma job_cluster_iff: "job_cluster w job c \<longleftrightarrow> Workflow_jobClusterID w job = Inr c"
  by (auto simp: job_cluster_def Workflow_jobClusterID_def split: sum.splits)

lemma scan_jobs_find:
  "scan_jobs w jobs options s =
     (case find (\<lambda>job. job_Name job = SubTask options) jobs of
        None \<Rightarrow> Continue (options, s)
      | Some job \<Rightarrow> Workflow_job w job options s)"
  by (induction jobs) simp_all

lemma named_jobs_Nil: "named_jobs [] sub = []"
  by (simp add: named_jobs_def map_filter_simps)

lemma named_jobs_Cons:
  "named_jobs (stage # stages) sub =
     (case find (\<lambda>job. job_Name job = sub) (Jobs stage) of
        None \<Rightarrow> named_jobs stages sub
      | Some job \<Rightarrow> job # named_jobs stages sub)"
  by (simp add: named_jobs_def map_filter_simps split: option.splits)

lemma scan_stages_named:
  assumes "\<forall>job \<in> set (named_jobs stages sub). \<exists>c. Workflow_jobClusterID w job = Inr c"
    and "SubTask options = sub"
  shows "\<exists>o'. scan_stages w stages options s = Continue (o', s) \<and>
           (case rev (named_jobs stages sub) of
              [] \<Rightarrow> o' = options
            | job # before \<Rightarrow>
                (\<exists>c. Workflow_jobClusterID w job = Inr c \<and>
                   o' = options\<lparr>JobName := job_K8sJobName job, JobType := job_JobType job,
                          ClusterID := (if c = '''' then LocalClusterID (cfg w) else c),
                          Namespace := namespaceOf (cfg w)
                            (if c = '''' then LocalClusterID (cfg w) else c)\<rparr>))"
  using assms
proof (induction stages arbitrary: options)
  case Nil
  then show ?case by (simp add: named_jobs_Nil)
next
  case (Cons stage stages)
  show ?case
  proof (cases "find (\<lambda>job. job_Name job = sub) (Jobs stage)")
    case None
    then have n: "named_jobs (stage # stages) sub = named_jobs stages sub"
      by (simp add: named_jobs_Cons)
    have sj: "scan_jobs w (Jobs stage) options s = Continue (options, s)"
      using None Cons.prems(2) by (simp add: scan_jobs_find)
    have "\<forall>job \<in> set (named_jobs stages sub). \<exists>c. Workflow_jobClusterID w job = Inr c"
      using Cons.prems(1) n by simp
    from Cons.IH [OF this Cons.prems(2)] show ?thesis
      by (simp add: sj n)
  next
    case (Some job)
    then have n: "named_jobs (stage # stages) sub = job # named_jobs stages sub"
      by (simp add: named_jobs_Cons)
    obtain c where c: "Workflow_jobClusterID w job = Inr c"
      using Cons.prems(1) n by auto
    define o1 where
      "o1 = options\<lparr>JobName := job_K8sJobName job, JobType := job_JobType job,
              ClusterID := (if c = '''' then LocalClusterID (cfg w) else c),
              Namespace := namespaceOf (cfg w)
                (if c = '''' then LocalClusterID (cfg w) else c)\<rparr>"
    have sj: "scan_jobs w (Jobs stage) options s = Continue (o1, s)"
      using Some Cons.prems(2) Workflow_job_assign [OF c]
      by (simp add: scan_jobs_find o1_def)
    have sub: "SubTask o1 = sub" using Cons.prems(2) by (simp add: o1_def)
    have "\<forall>job \<in> set (named_jobs stages sub). \<exists>c. Workflow_jobClusterID w job = Inr c"
      using Cons.prems(1) n by simp
    from Cons.IH [OF this sub] obtain o' where
      st: "scan_stages w stages o1 s = Continue (o', s)"
      and o': "(case rev (named_jobs stages sub) of
              [] \<Rightarrow> o' = o1
            | job # before \<Rightarrow>
                (\<exists>c. Workflow_jobClusterID w job = Inr c \<and>
                   o' = o1\<lparr>JobName := job_K8sJobName job, JobType := job_JobType job,
                          ClusterID := (if c = '''' then LocalClusterID (cfg w) else c),
                          Namespace := namespaceOf (cfg w)
                            (if c = '''' then LocalClusterID (cfg w) else c)\<rparr>))"
      by blast
    have run: "scan_stages w (stage # stages) options s = Continue (o', s)"
      by (simp add: sj st)
    show ?thesis
    proof (cases "rev (named_jobs stages sub)")
      case Nil
      then have "rev (named_jobs (stage # stages) sub) = [job]" by (simp add: n)
      moreover have "o' = o1" using o' Nil by simp
      ultimately show ?thesis using run c by (simp add: o1_def)
    next
      case (Cons j before)
      then have r: "rev (named_jobs (stage # stages) sub) = j # before @ [job]"
        by (simp add: n)
      obtain c' where c': "Workflow_jobClusterID w j = Inr c'"
        and e: "o' = o1\<lparr>JobName := job_K8sJobName j, JobType := job_JobType j,
                          ClusterID := (if c' = '''' then LocalClusterID (cfg w) else c'),
                          Namespace := namespaceOf (cfg w)
                            (if c' = '''' then LocalClusterID (cfg w) else c')\<rparr>"
        using o' Cons by auto
      have "o' = options\<lparr>JobName := job_K8sJobName j, JobType := job_JobType j,
                          ClusterID := (if c' = '''' then LocalClusterID (cfg w) else c'),
                          Namespace := namespaceOf (cfg w)
                            (if c' = '''' then LocalClusterID (cfg w) else c')\<rparr>"
        by (simp add: e o1_def)
      then show ?thesis using run c' by (simp add: r)
    qed
  qed
qed

lemma Workflow_entry_named:
  assumes "WorkflowTaskFind w (PipelineName options) (TaskID options) = Inr task"
    and "named_jobs (Stages task) (SubTask options) = before @ [job]"
    and "\<forall>j \<in> set before. \<exists>c'. job_cluster w j c'"
    and "job_cluster w job c"
  shows "\<exists>r o' s'. WorkflowTaskV4ContainerLogStream w ctx streamChan (Some options) s
             = (r, Some o', s') \<and>
           ClusterID o' = (if c = '''' then LocalClusterID (cfg w) else c) \<and>
           Namespace o' = namespaceOf (cfg w) (if c = '''' then LocalClusterID (cfg w) else c) \<and>
           JobName o' = job_K8sJobName job \<and> JobType o' = job_JobType job"
proof -
  let ?s2 = "emit (WorkflowFindCall (PipelineName options) (TaskID options))
               (emit (LogMsg Debug ''Start to get task container log.'') s)"
  have all: "\<forall>j \<in> set (named_jobs (Stages task) (SubTask options)).
      \<exists>c. Workflow_jobClusterID w j = Inr c"
    using assms(3,4) by (auto simp: assms(2) job_cluster_iff)
  have c: "Workflow_jobClusterID w job = Inr c" using assms(4) by (simp add: job_cluster_iff)
  from scan_stages_named [OF all refl, where s = ?s2] obtain o' where
    st: "scan_stages w (Stages task) options ?s2 = Continue (o', ?s2)"
    and o': "o' = options\<lparr>JobName := job_K8sJobName job, JobType := job_JobType job,
                          ClusterID := (if c = '''' then LocalClusterID (cfg w) else c),
                          Namespace := namespaceOf (cfg w)
                            (if c = '''' then LocalClusterID (cfg w) else c)\<rparr>"
    using c by (auto simp: assms(2))
  define sel where "sel = getWorkflowSelector (cfg w) o'"
  have "WorkflowTaskV4ContainerLogStream w ctx streamChan (Some options) s =
      (fst (waitAndGetLog w ctx streamChan sel o' ?s2), Some o',
       snd (waitAndGetLog w ctx streamChan sel o' ?s2)) \<and>
      ClusterID o' = (if c = '''' then LocalClusterID (cfg w) else c) \<and>
      Namespace o' = namespaceOf (cfg w) (if c = '''' then LocalClusterID (cfg w) else c) \<and>
      JobName o' = job_K8sJobName job \<and> JobType o' = job_JobType job"
    using assms(1) st
    by (simp add: WorkflowTaskV4ContainerLogStream_def Let_def with_options_def sel_def o')
  then show ?thesis by (intro exI)
qed

text \<open>When the task has no job that the request names, nothing is assigned.\<close>

lemma Workflow_entry_unnamed:
  assumes "WorkflowTaskFind w (PipelineName options) (TaskID options) = Inr task"
    and "named_jobs (Stages task) (SubTask options) = []"
  shows "\<exists>r s'. WorkflowTaskV4ContainerLogStream w ctx streamChan (Some options) s
             = (r, Some options, s')"
proof -
  let ?s2 = "emit (WorkflowFindCall (PipelineName options) (TaskID options))
               (emit (LogMsg Debug ''Start to get task container log.'') s)"
  have all: "\<forall>j \<in> set (named_jobs (Stages task) (SubTask options)).
      \<exists>c. Workflow_jobClusterID w j = Inr c"
    by (simp add: assms(2))
  from scan_stages_named [OF all refl, where s = ?s2]
  have st: "scan_stages w (Stages task) options ?s2 = Continue (options, ?s2)"
    by (auto simp: assms(2))
  show ?thesis
    using assms(1) st
    by (simp add: WorkflowTaskV4ContainerLogStream_def Let_def with_options_def)
qed

section \<open>The namespace rule\<close>

text \<open>
  Claim C5. The namespace is assigned by one function of the cluster id, \<open>namespaceOf\<close>:
  the local cluster id gives the default namespace and every other cluster id the namespace
  of the attached clusters. Each entry point, called with a request, leaves the request
  with the namespace the rule gives wherever it assigns one. The task entry point in its
  environment case assigns neither the namespace nor the cluster id. In its build case,
  when the build found declares a cluster, the request is left with that cluster id and
  the namespace of the rule. The test-job entry point does the same with the cluster of
  the test found. The workflow entry point takes the cluster id that the last job named by
  the request declares, replaces an empty one by the local cluster id, and leaves the
  request with that cluster id and the namespace of the rule, so an empty cluster id gives
  the default namespace; with no job named by the request it assigns nothing. In every
  case the request left follows the rule: namespace and cluster id are as they were, or
  the namespace is the one the rule gives for the cluster id.
\<close>

theorem namespace_rule:
  "(\<exists>r o' s'. TaskContainerLogStream w ctx streamChan (Some options) s = (r, Some o', s') \<and>
      follows_rule (cfg w) options o' \<and>
      (EnvName options \<noteq> '''' \<and> ProductName options \<noteq> '''' \<and> PipelineName options = '''' \<longrightarrow>
         Namespace o' = Namespace options \<and> ClusterID o' = ClusterID options)) \<and>
   ((EnvName options = '''' \<or> PipelineName options \<noteq> '''') \<and> ProductName options \<noteq> '''' \<and>
    build_found w options (Some b) \<and> PreBuild b = Some c \<and> c \<noteq> '''' \<longrightarrow>
      (\<exists>r o' s'. TaskContainerLogStream w ctx streamChan (Some options) s = (r, Some o', s') \<and>
         ClusterID o' = c \<and> Namespace o' = namespaceOf (cfg w) c)) \<and>
   (\<exists>r o' s'. TestJobContainerLogStream w ctx streamChan (Some options) s = (r, Some o', s') \<and>
      follows_rule (cfg w) options o') \<and>
   (fst (TestingFind w (getTestName (ServiceName options)) '''') = Some t \<and>
    PreTest t = Some c \<and> c \<noteq> '''' \<longrightarrow>
      (\<exists>r o' s'. TestJobContainerLogStream w ctx streamChan (Some options) s
           = (r, Some o', s') \<and>
         ClusterID o' = c \<and> Namespace o' = namespaceOf (cfg w) c)) \<and>
   (\<exists>r o' s'. WorkflowTaskV4ContainerLogStream w ctx streamChan (Some options) s
        = (r, Some o', s') \<and>
      follows_rule (cfg w) options o') \<and>
   (WorkflowTaskFind w (PipelineName options) (TaskID options) = Inr task \<and>
    named_jobs (Stages task) (SubTask options) = before @ [job] \<and>
    (\<forall>j \<in> set before. \<exists>c'. job_cluster w j c') \<and> job_cluster w job c \<longrightarrow>
      (\<exists>r o' s'. WorkflowTaskV4ContainerLogStream w ctx streamChan (Some options) s
           = (r, Some o', s') \<and>
         ClusterID o' = (if c = '''' then LocalClusterID (cfg w) else c) \<and>
         Namespace o' = namespaceOf (cfg w) (if c = '''' then LocalClusterID (cfg w) else c) \<and>
         JobName o' = job_K8sJobName job \<and> JobType o' = job_JobType job)) \<and>
   (WorkflowTaskFind w (PipelineName options) (TaskID options) = Inr task \<and>
    named_jobs (Stages task) (SubTask options) = [] \<longrightarrow>
      (\<exists>r s'. WorkflowTaskV4ContainerLogStream w ctx streamChan (Some options) s
           = (r, Some options, s'))) \<and>
   namespaceOf (cfg w) (LocalClusterID (cfg w)) = config_Namespace (cfg w) \<and>
   (c \<noteq> LocalClusterID (cfg w) \<longrightarrow> namespaceOf (cfg w) c = AttachedClusterNamespace (cfg w))"
proof -
  have task: "\<exists>r o' s'. TaskContainerLogStream w ctx streamChan (Some options) s
        = (r, Some o', s') \<and>
      follows_rule (cfg w) options o' \<and>
      (EnvName options \<noteq> '''' \<and> ProductName options \<noteq> '''' \<and> PipelineName options = '''' \<longrightarrow>
         Namespace o' = Namespace options \<and> ClusterID o' = ClusterID options)"
    using Task_entry [where w = w and ctx = ctx and streamChan = streamChan
        and options = options and s = s]
    by blast
  have build: "(EnvName options = '''' \<or> PipelineName options \<noteq> '''') \<and>
      ProductName options \<noteq> '''' \<and>
      build_found w options (Some b) \<and> PreBuild b = Some c \<and> c \<noteq> '''' \<longrightarrow>
      (\<exists>r o' s'. TaskContainerLogStream w ctx streamChan (Some options) s = (r, Some o', s') \<and>
         ClusterID o' = c \<and> Namespace o' = namespaceOf (cfg w) c)"
    using Task_entry_build [where w = w and ctx = ctx and streamChan = streamChan
        and options = options and s = s and b = b and c = c]
    by blast
  have test: "\<exists>r o' s'. TestJobContainerLogStream w ctx streamChan (Some options) s
        = (r, Some o', s') \<and> follows_rule (cfg w) options o'"
    using TestJob_entry [where w = w and ctx = ctx and streamChan = streamChan
        and options = options and s = s]
    by blast
  have found: "fst (TestingFind w (getTestName (ServiceName options)) '''') = Some t \<and>
      PreTest t = Some c \<and> c \<noteq> '''' \<longrightarrow>
      (\<exists>r o' s'. TestJobContainerLogStream w ctx streamChan (Some options) s
           = (r, Some o', s') \<and>
         ClusterID o' = c \<and> Namespace o' = namespaceOf (cfg w) c)"
    using TestJob_entry_test [where w = w and ctx = ctx and streamChan = streamChan
        and options = options and s = s and t = t and c = c]
    by blast
  have flow: "\<exists>r o' s'. WorkflowTaskV4ContainerLogStream w ctx streamChan (Some options) s
        = (r, Some o', s') \<and> follows_rule (cfg w) options o'"
    using Workflow_entry [where w = w and ctx = ctx and streamChan = streamChan
        and options = options and s = s]
    by blast
  have named: "WorkflowTaskFind w (PipelineName options) (TaskID options) = Inr task \<and>
      named_jobs (Stages task) (SubTask options) = before @ [job] \<and>
      (\<forall>j \<in> set before. \<exists>c'. job_cluster w j c') \<and> job_cluster w job c \<longrightarrow>
      (\<exists>r o' s'. WorkflowTaskV4ContainerLogStream w ctx streamChan (Some options) s
           = (r, Some o', s') \<and>
         ClusterID o' = (if c = '''' then LocalClusterID (cfg w) else c) \<and>
         Namespace o' = namespaceOf (cfg w) (if c = '''' then LocalClusterID (cfg w) else c) \<and>
         JobName o' = job_K8sJobName job \<and> JobType o' = job_JobType job)"
    using Workflow_entry_named [where w = w and ctx = ctx and streamChan = streamChan
        and options = options and s = s and task = task and before = before and job = job
        and c = c]
    by blast
  have unnamed: "WorkflowTaskFind w (PipelineName options) (TaskID options) = Inr task \<and>
      named_jobs (Stages task) (SubTask options) = [] \<longrightarrow>
      (\<exists>r s'. WorkflowTaskV4ContainerLogStream w ctx streamChan (Some options) s
           = (r, Some options, s'))"
    using Workflow_entry_unnamed [where w = w and ctx = ctx and streamChan = streamChan
        and options = options and s = s and task = task]
    by blast
  have local: "namespaceOf (cfg w) (LocalClusterID (cfg w)) = config_Namespace (cfg w)"
    by (simp add: namespaceOf_def)
  have other: "c \<noteq> LocalClusterID (cfg w) \<longrightarrow>
      namespaceOf (cfg w) c = AttachedClusterNamespace (cfg w)"
    by (simp add: namespaceOf_def)
  show ?thesis
    by (intro conjI task build test found flow named unnamed local other)
qed

text \<open>
  The three entry points run in the example world: the environment case assigns nothing,
  the build on \<open>cluster-2\<close> gives the namespace of the attached clusters, the test on the
  local cluster gives the default namespace, a workflow job whose spec has an empty
  cluster id gives the local cluster and the default namespace, and of two stages the
  last one decides, by the first job of the name.
\<close>

theorem namespace_rule_witness:
  "(\<exists>r o' s'. TaskContainerLogStream (example_world example_stream NeverRunning)
        \<lparr>done_at = None\<rparr> \<lparr>room = None\<rparr>
        (Some (example_options\<lparr>PipelineName := '''', EnvName := ''dev''\<rparr>))
        \<lparr>clock = 0, trace = []\<rparr> = (r, Some o', s') \<and>
      Namespace o' = '''' \<and> ClusterID o' = '''') \<and>
   (\<exists>r o' s'. TaskContainerLogStream (example_world example_stream NeverRunning)
        \<lparr>done_at = None\<rparr> \<lparr>room = None\<rparr> (Some example_options)
        \<lparr>clock = 0, trace = []\<rparr> = (r, Some o', s') \<and>
      ClusterID o' = ''cluster-2'' \<and> Namespace o' = ''attached-ns'') \<and>
   (\<exists>r o' s'. TestJobContainerLogStream (example_world example_stream NeverRunning)
        \<lparr>done_at = None\<rparr> \<lparr>room = None\<rparr> (Some example_options)
        \<lparr>clock = 0, trace = []\<rparr> = (r, Some o', s') \<and>
      ClusterID o' = ''local-cluster'' \<and> Namespace o' = ''default-ns'') \<and>
   (\<exists>r o' s'. WorkflowTaskV4ContainerLogStream (example_world example_stream NeverRunning)
        \<lparr>done_at = None\<rparr> \<lparr>room = None\<rparr> (Some example_options)
        \<lparr>clock = 0, trace = []\<rparr> = (r, Some o', s') \<and>
      ClusterID o' = ''local-cluster'' \<and> Namespace o' = ''default-ns'') \<and>
   (\<exists>r o' s'. WorkflowTaskV4ContainerLogStream staged_world
        \<lparr>done_at = None\<rparr> \<lparr>room = None\<rparr> (Some example_options)
        \<lparr>clock = 0, trace = []\<rparr> = (r, Some o', s') \<and>
      ClusterID o' = ''cluster-2'' \<and> Namespace o' = ''attached-ns'' \<and>
      JobName o' = ''wf1-7-build-2'')"
proof -
  let ?w = "example_world example_stream NeverRunning"
  let ?s = "\<lparr>clock = 0, trace = []\<rparr>"
  let ?ctx = "\<lparr>done_at = None\<rparr>"
  let ?ch = "\<lparr>room = None\<rparr>"
  let ?env = "example_options\<lparr>PipelineName := '''', EnvName := ''dev''\<rparr>"
  let ?job2 = "example_job\<lparr>job_K8sJobName := ''wf1-7-build-2'', job_Spec := ''cluster-2''\<rparr>"
  have c: "cfg ?w = example_settings" "cfg staged_world = example_settings"
    by (simp_all add: staged_world_def example_world_def)
  have n1: "namespaceOf example_settings ''cluster-2'' = ''attached-ns''"
    and n2: "namespaceOf example_settings ''local-cluster'' = ''default-ns''"
    by (simp_all add: namespaceOf_def example_settings_def)
  have l: "LocalClusterID example_settings = ''local-cluster''"
    by (simp add: example_settings_def)
  have bf: "build_found ?w example_options (Some \<lparr>PreBuild = Some ''cluster-2''\<rparr>)"
    by (simp add: build_found_def example_world_def Let_def)
  have tf: "fst (TestingFind ?w (getTestName (ServiceName example_options)) '''') =
      Some \<lparr>PreTest = Some ''local-cluster''\<rparr>"
    by (simp add: example_world_def)
  have wf: "WorkflowTaskFind ?w (PipelineName example_options) (TaskID example_options) =
      Inr \<lparr>Stages = [\<lparr>Jobs = [example_job]\<rparr>]\<rparr>"
    by (simp add: example_world_def)
  have nj: "named_jobs [\<lparr>Jobs = [example_job]\<rparr>] (SubTask example_options) = [] @ [example_job]"
    by (simp add: named_jobs_def map_filter_simps example_job_def example_options_def)
  have jc: "job_cluster ?w example_job ''''"
    by (simp add: job_cluster_def example_world_def example_job_def example_settings_def)
  have wf2: "WorkflowTaskFind staged_world (PipelineName example_options)
      (TaskID example_options) = Inr \<lparr>Stages = example_stages\<rparr>"
    by (simp add: staged_world_def)
  have nj2: "named_jobs example_stages (SubTask example_options) = [example_job] @ [?job2]"
    by (simp add: named_jobs_def map_filter_simps example_stages_def example_job_def
        example_options_def)
  have jc1: "job_cluster staged_world example_job ''''"
    by (simp add: job_cluster_def staged_world_def example_world_def example_job_def
        example_settings_def)
  have jc2: "job_cluster staged_world ?job2 ''cluster-2''"
    by (simp add: job_cluster_def staged_world_def example_world_def example_job_def
        example_settings_def)
  have o: "EnvName ?env \<noteq> '''' \<and> ProductName ?env \<noteq> '''' \<and> PipelineName ?env = ''''"
    "EnvName example_options = ''''" "ProductName example_options \<noteq> ''''"
    "Namespace ?env = ''''" "ClusterID ?env = ''''"
    by (simp_all add: example_options_def)
  have e1: "\<exists>r o' s'. TaskContainerLogStream ?w ?ctx ?ch (Some ?env) ?s = (r, Some o', s') \<and>
      Namespace o' = '''' \<and> ClusterID o' = ''''"
  proof -
    from namespace_rule [where w = ?w and ctx = ?ctx and streamChan = ?ch and options = ?env
        and s = ?s, THEN conjunct1]
    obtain r o' s' where
      run: "TaskContainerLogStream ?w ?ctx ?ch (Some ?env) ?s = (r, Some o', s')"
      and same: "EnvName ?env \<noteq> '''' \<and> ProductName ?env \<noteq> '''' \<and> PipelineName ?env = ''''
        \<longrightarrow> Namespace o' = Namespace ?env \<and> ClusterID o' = ClusterID ?env"
      by blast
    from same o have "Namespace o' = '''' \<and> ClusterID o' = ''''" by simp
    with run show ?thesis by blast
  qed
  have e2: "\<exists>r o' s'. TaskContainerLogStream ?w ?ctx ?ch (Some example_options) ?s
        = (r, Some o', s') \<and> ClusterID o' = ''cluster-2'' \<and> Namespace o' = ''attached-ns''"
    using namespace_rule [where w = ?w and ctx = ?ctx and streamChan = ?ch
        and options = example_options and s = ?s and b = "\<lparr>PreBuild = Some ''cluster-2''\<rparr>"
        and c = "''cluster-2''", THEN conjunct2, THEN conjunct1] o(2,3) bf
    by (simp add: c n1)
  have e3: "\<exists>r o' s'. TestJobContainerLogStream ?w ?ctx ?ch (Some example_options) ?s
        = (r, Some o', s') \<and> ClusterID o' = ''local-cluster'' \<and> Namespace o' = ''default-ns''"
    using namespace_rule [where w = ?w and ctx = ?ctx and streamChan = ?ch
        and options = example_options and s = ?s and t = "\<lparr>PreTest = Some ''local-cluster''\<rparr>"
        and c = "''local-cluster''", THEN conjunct2, THEN conjunct2, THEN conjunct2,
        THEN conjunct1] tf
    by (simp add: c n2)
  have e4: "\<exists>r o' s'. WorkflowTaskV4ContainerLogStream ?w ?ctx ?ch (Some example_options) ?s
        = (r, Some o', s') \<and> ClusterID o' = ''local-cluster'' \<and> Namespace o' = ''default-ns''"
    using namespace_rule [where w = ?w and ctx = ?ctx and streamChan = ?ch
        and options = example_options and s = ?s
        and task = "\<lparr>Stages = [\<lparr>Jobs = [example_job]\<rparr>]\<rparr>" and before = "[]"
        and job = example_job and c = "[]", THEN conjunct2, THEN conjunct2, THEN conjunct2,
        THEN conjunct2, THEN conjunct2, THEN conjunct1] wf nj jc
    by (simp add: c n2 l) blast
  have e5: "\<exists>r o' s'. WorkflowTaskV4ContainerLogStream staged_world ?ctx ?ch
        (Some example_options) ?s = (r, Some o', s') \<and>
      ClusterID o' = ''cluster-2'' \<and> Namespace o' = ''attached-ns'' \<and>
      JobName o' = ''wf1-7-build-2''"
    using namespace_rule [where w = staged_world and ctx = ?ctx and streamChan = ?ch
        and options = example_options and s = ?s
        and task = "\<lparr>Stages = example_stages\<rparr>" and before = "[example_job]"
        and job = ?job2 and c = "''cluster-2''", THEN conjunct2, THEN conjunct2,
        THEN conjunct2, THEN conjunct2, THEN conjunct2, THEN conjunct1] wf2 nj2 jc1 jc2
    by (simp add: c n1 l) blast
  show ?thesis using e1 e2 e3 e4 e5 by (intro conjI)
qed

section \<open>The nil request\<close>

text \<open>
  Claim C9. Called with a \<open>nil\<close> options pointer, \<open>TaskContainerLogStream\<close> and
  \<open>WorkflowTaskV4ContainerLogStream\<close> return at once and leave the state as it was: no
  collaborator is called and nothing is pushed. \<open>TestJobContainerLogStream\<close> has no such
  guard: with a \<open>nil\<close> pointer it panics at its first statement, and with a request it
  does not panic, so a pointer that is not \<open>nil\<close> is what it requires.
\<close>

theorem nil_options:
  "TaskContainerLogStream w ctx streamChan None s = (Returned, None, s) \<and>
   WorkflowTaskV4ContainerLogStream w ctx streamChan None s = (Returned, None, s) \<and>
   TestJobContainerLogStream w ctx streamChan None s = (Panicked, None, s) \<and>
   fst (TestJobContainerLogStream w ctx streamChan (Some options) s) \<noteq> Panicked"
  by (simp add: TaskContainerLogStream_def WorkflowTaskV4ContainerLogStream_def
        TestJobContainerLogStream_def with_options_def Let_def waitAndGetLog_not_panicked)

section \<open>Follow mode\<close>

text \<open>
  Claim C10. \<open>waitAndGetLog\<close> opens at most one log stream, and when it opens one it
  does so in follow mode (the argument is the constant \<open>true\<close>) and for the container
  named by the \<open>SubTask\<close> field of the request it was given. The same holds for each of
  the three entry points, with the request as the entry point left it. The request type
  \<open>GetContainerOptions\<close> has no follow field, so no request changes this.
\<close>

theorem follow_always:
  "one_follow_open s options (snd (waitAndGetLog w ctx streamChan selector options s)) \<and>
   (\<exists>r o' s'. TaskContainerLogStream w ctx streamChan (Some options) s = (r, Some o', s') \<and>
      one_follow_open s o' s') \<and>
   (\<exists>r o' s'. WorkflowTaskV4ContainerLogStream w ctx streamChan (Some options) s
        = (r, Some o', s') \<and>
      one_follow_open s o' s') \<and>
   (\<exists>r o' s'. TestJobContainerLogStream w ctx streamChan (Some options) s = (r, Some o', s') \<and>
      one_follow_open s o' s')"
proof (intro conjI)
  show "one_follow_open s options (snd (waitAndGetLog w ctx streamChan selector options s))"
    using waitAndGetLog_opens by (simp add: one_follow_open_def)
  show "\<exists>r o' s'. TaskContainerLogStream w ctx streamChan (Some options) s = (r, Some o', s') \<and>
      one_follow_open s o' s'"
    using Task_entry [where w = w and ctx = ctx and streamChan = streamChan and options = options and s = s] by blast
  show "\<exists>r o' s'. WorkflowTaskV4ContainerLogStream w ctx streamChan (Some options) s
        = (r, Some o', s') \<and>
      one_follow_open s o' s'"
    using Workflow_entry [where w = w and ctx = ctx and streamChan = streamChan and options = options and s = s] by blast
  show "\<exists>r o' s'. TestJobContainerLogStream w ctx streamChan (Some options) s = (r, Some o', s') \<and>
      one_follow_open s o' s'"
    using TestJob_entry [where w = w and ctx = ctx and streamChan = streamChan and options = options and s = s] by blast
qed

text \<open>In the example world the pod runs and its stream is opened, in follow mode.\<close>

theorem follow_always_witness:
  "opens (snd (waitAndGetLog (example_world example_stream (RunningAt 0)) \<lparr>done_at = None\<rparr>
      \<lparr>room = None\<rparr> (JobLabels ''wf1'' 7 ''build-job'' ''mod_svc'' '''') example_options
      \<lparr>clock = 0, trace = []\<rparr>))
   = [('''', ''pod-1'', ''build-job'', True, 100, ''clientset'')]"
  using follow_always [where s = "\<lparr>clock = 0, trace = []\<rparr>" and options = example_options
      and w = "example_world example_stream (RunningAt 0)" and ctx = "\<lparr>done_at = None\<rparr>"
      and streamChan = "\<lparr>room = None\<rparr>"
      and selector = "JobLabels ''wf1'' 7 ''build-job'' ''mod_svc'' ''''"]
  by (simp add: one_follow_open_def waitAndGetLog_def example_world_def example_options_def
      WaitUntilPodRunning_def WithTimeout_def timeout_def Minute_def Let_def
      containerLogStream_opens opens_emit open_of_def clock_emit opens_init)

end
